theory Spec2Isabelle
  imports Main "HOL-Library.Word"
begin

unbundle bit_operations_syntax

section \<open>JavaScript values of the ID3v2 parser\<close>

text \<open>
  The parser (\<^verbatim>\<open>parsers/v2parser\<close>, compiled JavaScript) reads a buffer of bytes and
  builds strings, plain objects and arrays. A byte is an 8-bit word, a string is the
  list of its UTF-16 code units, and an integer-valued number is an \<open>int\<close> (a \<open>nat\<close>
  where the code cannot make it negative).
\<close>

type_synonym byte = "8 word"
type_synonym bytes = "byte list"
type_synonym jsstring = "16 word list"

text \<open>A string literal of the source, as code units.\<close>

definition js :: "string \<Rightarrow> jsstring" where
  "js s = map of_char s"

datatype jsval =
    Undefined
  | Null
  | Bool bool
  | Num int
  | Str jsstring
  | Bin bytes
  | Arr "jsval list"
  | Obj "(string \<times> jsval) list"

text \<open>Truthiness, as \<^verbatim>\<open>if (v)\<close> and \<^verbatim>\<open>v || w\<close> test it.\<close>

fun truthy :: "jsval \<Rightarrow> bool" where
  "truthy Undefined = False"
| "truthy Null = False"
| "truthy (Bool b) = b"
| "truthy (Num n) = (n \<noteq> 0)"
| "truthy (Str s) = (s \<noteq> [])"
| "truthy (Bin b) = True"
| "truthy (Arr xs) = True"
| "truthy (Obj fs) = True"

text \<open>
  \<^verbatim>\<open>bytes[i]\<close>: the byte at index \<open>i\<close>, or \<^verbatim>\<open>undefined\<close> (\<open>None\<close>) when \<open>i\<close> is
  negative or not below the length.
\<close>

definition byte_at :: "bytes \<Rightarrow> int \<Rightarrow> byte option" where
  "byte_at bs i = (if 0 \<le> i \<and> i < int (length bs) then Some (bs ! nat i) else None)"

text \<open>
  \<^verbatim>\<open>bytes.slice(start)\<close> and \<^verbatim>\<open>bytes.slice(start, end)\<close>: a negative index counts
  from the end, every index is clamped to the length, and an end before the start
  gives the empty slice.
\<close>

definition rel_index :: "bytes \<Rightarrow> int \<Rightarrow> nat" where
  "rel_index bs i =
     (if i < 0 then nat (max (int (length bs) + i) 0) else min (nat i) (length bs))"

definition slice_from :: "bytes \<Rightarrow> int \<Rightarrow> bytes" where
  "slice_from bs start = drop (rel_index bs start) bs"

definition slice :: "bytes \<Rightarrow> int \<Rightarrow> int \<Rightarrow> bytes" where
  "slice bs start end =
     (let k = rel_index bs start; e = rel_index bs end in take (e - k) (drop k bs))"

section \<open>Sizes\<close>

definition V2_MIN_LENGTH :: nat where
  "V2_MIN_LENGTH = 20"

text \<open>
  \<^verbatim>\<open>calcTagSize\<close>: four bytes of seven bits each. A missing byte is \<^verbatim>\<open>undefined\<close>, and
  \<^verbatim>\<open>undefined & 0x7f\<close> is 0.
\<close>

definition low7 :: "bytes \<Rightarrow> int \<Rightarrow> nat" where
  "low7 bs i = (case byte_at bs i of None \<Rightarrow> 0 | Some b \<Rightarrow> unat (b AND 0x7f))"

definition calcTagSize :: "bytes \<Rightarrow> nat" where
  "calcTagSize bs =
     low7 bs 0 * 0x200000 + low7 bs 1 * 0x4000 + low7 bs 2 * 0x80 + low7 bs 3"

text \<open>\<^verbatim>\<open>calcFrameSize\<close>: four full bytes, and 0 when fewer than four are given.\<close>

definition calcFrameSize :: "bytes \<Rightarrow> nat" where
  "calcFrameSize bs =
     (if length bs < 4 then 0
      else unat (bs ! 0) * 0x1000000 + unat (bs ! 1) * 0x10000 +
           unat (bs ! 2) * 0x100 + unat (bs ! 3))"

section \<open>Collaborators that are not in the parser's file\<close>

text \<open>
  The parser imports its string decoders and scanners from \<^verbatim>\<open>../utils\<close> and its
  static tables from \<^verbatim>\<open>../constants\<close>. They are parameters of the model, collected in
  one record:
  \<^item> \<^verbatim>\<open>readBytesToUTF8(bytes, maxToRead)\<close>, \<^verbatim>\<open>readBytesToISO8859(bytes, maxToRead)\<close>
    return a string; an omitted \<^verbatim>\<open>maxToRead\<close> is \<open>None\<close>;
  \<^item> \<^verbatim>\<open>readBytesToString(bytes, encoding, maxToRead)\<close> returns a string or
    \<^verbatim>\<open>null\<close> (the parser tests its result against \<^verbatim>\<open>null\<close>); the encoding is
    \<^verbatim>\<open>bytes[10]\<close>, which is \<^verbatim>\<open>undefined\<close> (\<open>None\<close>) on a frame of ten bytes or less;
  \<^item> \<^verbatim>\<open>getEndpointOfBytes(bytes, encoding, start)\<close> and
    \<^verbatim>\<open>skipPaddingZeros(bytes, start)\<close> return an offset;
  \<^item> \<^verbatim>\<open>frameTypes.default\<close> maps a frame identifier to its semantic tag
    (\<^verbatim>\<open>header.id in frameTypes.default\<close> is membership in its keys: the properties
    that a plain object inherits all have names longer than the four characters of an
    identifier),
    \<^verbatim>\<open>FrameTypeValueMap\<close> maps it to its value class (\<^verbatim>\<open>'array'\<close> for a multi-valued
    one), \<^verbatim>\<open>genres.default\<close> and \<^verbatim>\<open>imageTypes.default\<close> are arrays of names.
\<close>

record deps =
  readBytesToUTF8 :: "bytes \<Rightarrow> int option \<Rightarrow> jsstring"
  readBytesToISO8859 :: "bytes \<Rightarrow> int option \<Rightarrow> jsstring"
  readBytesToString :: "bytes \<Rightarrow> byte option \<Rightarrow> int option \<Rightarrow> jsstring option"
  getEndpointOfBytes :: "bytes \<Rightarrow> byte option \<Rightarrow> int \<Rightarrow> int"
  skipPaddingZeros :: "bytes \<Rightarrow> int \<Rightarrow> int"
  frameTypes :: "jsstring \<rightharpoonup> jsstring"
  FrameTypeValueMap :: "jsstring \<rightharpoonup> jsstring"
  genres :: "jsstring list"
  imageTypes :: "jsstring list"

text \<open>A string or \<^verbatim>\<open>null\<close> as a value.\<close>

definition str_or_null :: "jsstring option \<Rightarrow> jsval" where
  "str_or_null r = (case r of None \<Rightarrow> Null | Some s \<Rightarrow> Str s)"

section \<open>Built-ins used on the genre string\<close>

text \<open>
  \<^verbatim>\<open>parseInt(s, 10)\<close>: leading white space is dropped, one sign is read, then the
  longest run of decimal digits; no digit gives \<^verbatim>\<open>NaN\<close> (\<open>None\<close>). The result is only
  used as an index of the genre array, where every number that is not an index below
  the array's length gives \<^verbatim>\<open>undefined\<close>, so the rounding of long digit runs to a
  double is not modelled.
\<close>

definition StrWhiteSpaceChar :: "16 word \<Rightarrow> bool" where
  "StrWhiteSpaceChar c \<longleftrightarrow>
     c \<in> {0x09, 0x0A, 0x0B, 0x0C, 0x0D, 0x20, 0xA0, 0x1680, 0x2028, 0x2029,
          0x202F, 0x205F, 0x3000, 0xFEFF} \<or> (0x2000 \<le> c \<and> c \<le> 0x200A)"

definition is_digit :: "16 word \<Rightarrow> bool" where
  "is_digit c \<longleftrightarrow> 0x30 \<le> c \<and> c \<le> 0x39"

definition digits_value :: "jsstring \<Rightarrow> nat" where
  "digits_value ds = foldl (\<lambda>n c. 10 * n + (unat c - 0x30)) 0 ds"

definition parseInt10 :: "jsstring \<Rightarrow> int option" where
  "parseInt10 s =
     (let S = dropWhile StrWhiteSpaceChar s;
          sign = (if S \<noteq> [] \<and> hd S = 0x2D then - 1 else 1);
          S' = (if S \<noteq> [] \<and> (hd S = 0x2B \<or> hd S = 0x2D) then tl S else S);
          Z = takeWhile is_digit S'
      in if Z = [] then None else Some (sign * int (digits_value Z)))"

text \<open>
  \<^verbatim>\<open>s.match(/\(\d+\)/g)\<close>: every match of an opening parenthesis, one or more
  decimal digits and a closing parenthesis, from left to right, the search going on
  after each match; \<open>match_groups\<close> lists the matched substrings (\<^verbatim>\<open>match\<close> returns
  \<^verbatim>\<open>null\<close> when there is none).
\<close>

function match_groups :: "jsstring \<Rightarrow> jsstring list" where
  "match_groups [] = []"
| "match_groups (c # cs) =
     (if c = 0x28 \<and> takeWhile is_digit cs \<noteq> [] \<and>
         dropWhile is_digit cs \<noteq> [] \<and> hd (dropWhile is_digit cs) = 0x29
      then (c # takeWhile is_digit cs @ [0x29]) # match_groups (tl (dropWhile is_digit cs))
      else match_groups cs)"
  by pat_completeness auto
termination
proof (relation "measure length")
  fix c :: "16 word" and cs :: jsstring
  have "length (dropWhile is_digit cs) \<le> length cs"
    by (rule length_dropWhile_le)
  then show "(tl (dropWhile is_digit cs), c # cs) \<in> measure length"
    by simp
qed simp_all

text \<open>\<^verbatim>\<open>genres[n]\<close>: the entry, or \<^verbatim>\<open>undefined\<close> when \<open>n\<close> is not an index.\<close>

definition genre_at :: "deps \<Rightarrow> int \<Rightarrow> jsval" where
  "genre_at D n =
     (if 0 \<le> n \<and> n < int (length (genres D)) then Str (genres D ! nat n) else Undefined)"

text \<open>
  \<^verbatim>\<open>xs.join(',')\<close> on strings and \<^verbatim>\<open>undefined\<close>: an \<^verbatim>\<open>undefined\<close> element is
  written as the empty string.
\<close>

fun join_piece :: "jsval \<Rightarrow> jsstring" where
  "join_piece (Str s) = s"
| "join_piece v = []"

fun join_comma :: "jsval list \<Rightarrow> jsstring" where
  "join_comma [] = []"
| "join_comma [v] = join_piece v"
| "join_comma (v # w # vs) = join_piece v @ 0x2C # join_comma (w # vs)"

section \<open>Decoding one frame: \<^verbatim>\<open>parseFrame\<close>\<close>

text \<open>
  The result object \<^verbatim>\<open>{id, tag, value}\<close>. The identifier is always set from the
  header; the tag stays \<^verbatim>\<open>null\<close> (\<open>None\<close>) on a skipped frame.
\<close>

record frame_result =
  frame_id :: jsstring
  frame_tag :: "jsstring option"
  frame_value :: jsval

text \<open>
  The genre rewrite of a \<^verbatim>\<open>TCON\<close> frame whose decoded string \<open>s\<close> is not
  \<^verbatim>\<open>null\<close>. In \<^verbatim>\<open>+v.slice(1, -1)\<close> the two parentheses of a match are cut off and
  the digits between them read as a number.
\<close>

definition content_type :: "deps \<Rightarrow> jsstring \<Rightarrow> jsval" where
  "content_type D s =
     (if s \<noteq> [] \<and> hd s = 0x28 then
        (let handledTCON = match_groups s in
         if handledTCON = [] then Str s
         else Str (join_comma
                (map (\<lambda>v. genre_at D (int (digits_value (butlast (tl v))))) handledTCON)))
      else
        (case parseInt10 s of
           None \<Rightarrow> Str s
         | Some genre \<Rightarrow> genre_at D genre))"

text \<open>The \<^verbatim>\<open>TXXX\<close> branch.\<close>

definition parseFrame_TXXX :: "deps \<Rightarrow> bytes \<Rightarrow> jsval" where
  "parseFrame_TXXX D bytes =
     (let encoding = byte_at bytes 10;
          variableStart = 11;
          variableLength = getEndpointOfBytes D bytes encoding variableStart - variableStart;
          description = readBytesToString D (slice_from bytes variableStart) encoding
                          (Some variableLength);
          variableStart2 = skipPaddingZeros D bytes (variableStart + (variableLength + 1))
      in Obj [(''description'', str_or_null description),
              (''value'', str_or_null
                 (readBytesToString D (slice_from bytes variableStart2) encoding None))])"

text \<open>The \<^verbatim>\<open>COMM\<close> and \<^verbatim>\<open>USLT\<close> branch.\<close>

definition parseFrame_COMM :: "deps \<Rightarrow> bytes \<Rightarrow> jsval" where
  "parseFrame_COMM D bytes =
     (let encoding = byte_at bytes 10;
          variableStart = 14;
          language = readBytesToISO8859 D (slice_from bytes 11) (Some 3);
          variableLength = getEndpointOfBytes D bytes encoding variableStart - variableStart;
          description = readBytesToString D (slice_from bytes variableStart) encoding
                          (Some variableLength);
          variableStart2 = skipPaddingZeros D bytes (variableStart + variableLength + 1)
      in Obj [(''language'', Str language),
              (''description'', str_or_null description),
              (''value'', str_or_null
                 (readBytesToString D (slice_from bytes variableStart2) encoding None))])"

text \<open>
  The scan for the end of a picture's description:
  \<^verbatim>\<open>for (i = variableStart; i < 36700160 /* 30*1024*1024 */; i++)\<close>, which stops at the
  first index whose byte is 0. It returns the final \<^verbatim>\<open>variableLength\<close>, 0 when the scan
  reaches the bound. \<open>description_scan_reads\<close> lists the indices \<open>i\<close> at which the same
  loop evaluates \<^verbatim>\<open>bytes[i]\<close>.
\<close>

function description_scan :: "bytes \<Rightarrow> int \<Rightarrow> int \<Rightarrow> int" where
  "description_scan bytes variableStart i =
     (if i < 36700160 then
        (if byte_at bytes i = Some 0 then i - variableStart
         else description_scan bytes variableStart (i + 1))
      else 0)"
  by pat_completeness auto
termination
  by (relation "measure (\<lambda>(bytes, variableStart, i). nat (36700160 - i))") auto

function description_scan_reads :: "bytes \<Rightarrow> int \<Rightarrow> int list" where
  "description_scan_reads bytes i =
     (if i < 36700160 then
        i # (if byte_at bytes i = Some 0 then [] else description_scan_reads bytes (i + 1))
      else [])"
  by pat_completeness auto
termination
  by (relation "measure (\<lambda>(bytes, i). nat (36700160 - i))") auto

text \<open>
  \<^verbatim>\<open>imageTypes[b] || 'other'\<close>: a missing byte, a byte that is no index of the table
  and an empty name all give \<^verbatim>\<open>'other'\<close>.
\<close>

definition image_type :: "deps \<Rightarrow> byte option \<Rightarrow> jsval" where
  "image_type D b =
     (case b of
        None \<Rightarrow> Str (js ''other'')
      | Some k \<Rightarrow>
          if unat k < length (imageTypes D) \<and> imageTypes D ! unat k \<noteq> []
          then Str (imageTypes D ! unat k) else Str (js ''other''))"

text \<open>The \<^verbatim>\<open>APIC\<close> branch.\<close>

definition parseFrame_APIC :: "deps \<Rightarrow> bytes \<Rightarrow> jsval" where
  "parseFrame_APIC D bytes =
     (let encoding = byte_at bytes 10;
          variableStart = 11;
          variableLength = getEndpointOfBytes D bytes (Some 0) variableStart - variableStart;
          mime = readBytesToString D (slice_from bytes variableStart) (Some 0)
                   (Some variableLength);
          type = image_type D (byte_at bytes (variableStart + variableLength + 1));
          variableStart2 = variableStart + (variableLength + 2);
          variableLength2 = description_scan bytes variableStart2 variableStart2;
          description =
            (if variableLength2 = 0 then Null
             else str_or_null (readBytesToString D (slice_from bytes variableStart2) encoding
                                 (Some variableLength2)));
          variableStart3 = skipPaddingZeros D bytes (variableStart2 + variableLength2 + 1)
      in Obj [(''type'', type),
              (''mime'', str_or_null mime),
              (''description'', description),
              (''data'', Bin (slice_from bytes variableStart3))])"

text \<open>The \<^verbatim>\<open>OWNE\<close> branch.\<close>

definition parseFrame_OWNE :: "deps \<Rightarrow> bytes \<Rightarrow> jsval" where
  "parseFrame_OWNE D bytes =
     (let encoding = byte_at bytes 10;
          variableStart = 11;
          variableLength = getEndpointOfBytes D bytes encoding variableStart;
          pricePayed = readBytesToISO8859 D (slice_from bytes variableStart)
                         (Some variableLength);
          variableStart2 = variableStart + (variableLength + 1);
          dateOfPurch = readBytesToISO8859 D (slice_from bytes variableStart2) (Some 8);
          variableStart3 = variableStart2 + 8
      in Obj [(''pricePayed'', Str pricePayed),
              (''dateOfPurch'', Str dateOfPurch),
              (''seller'', str_or_null
                 (readBytesToString D (slice_from bytes variableStart3) encoding None))])"

text \<open>
  The dispatch on the identifier \<open>hid\<close> (\<^verbatim>\<open>header.id\<close>), in the order of the source;
  \<^verbatim>\<open>header.type\<close> is the first character of the identifier.
\<close>

definition frame_content :: "deps \<Rightarrow> jsstring \<Rightarrow> bytes \<Rightarrow> jsval" where
  "frame_content D hid bytes =
     (if hid \<noteq> [] \<and> hd hid = 0x54 then
        (if hid = js ''TXXX'' then parseFrame_TXXX D bytes
         else
           (case readBytesToString D (slice_from bytes 11) (byte_at bytes 10) None of
              None \<Rightarrow> Null
            | Some s \<Rightarrow> if hid = js ''TCON'' then content_type D s else Str s))
      else if hid \<noteq> [] \<and> hd hid = 0x57 then
        (if hid = js ''WXXX'' \<and> byte_at bytes 10 = Some 0
         then Str (readBytesToISO8859 D (slice_from bytes 11) None)
         else Str (readBytesToISO8859 D (slice_from bytes 10) None))
      else if hid = js ''COMM'' \<or> hid = js ''USLT'' then parseFrame_COMM D bytes
      else if hid = js ''APIC'' then parseFrame_APIC D bytes
      else if hid = js ''IPLS'' then
        str_or_null (readBytesToString D (slice_from bytes 11) (byte_at bytes 10) None)
      else if hid = js ''OWNE'' then parseFrame_OWNE D bytes
      else Null)"

text \<open>
  \<^verbatim>\<open>parseFrame(bytes, minor, size)\<close>. The minor version is only tested in an empty
  \<^verbatim>\<open>if\<close>, and the size (\<open>fsize\<close>) is only stored in the local header object. A frame whose
  second flag byte \<^verbatim>\<open>bytes[9]\<close> is not the number 0 (so also a missing one) and a frame
  whose identifier is not a key of the frame-type table are returned without tag and
  value.
\<close>

definition parseFrame :: "deps \<Rightarrow> bytes \<Rightarrow> byte \<Rightarrow> nat \<Rightarrow> frame_result" where
  "parseFrame D bytes minor fsize =
     (let hid = readBytesToUTF8 D bytes (Some 4);
          result = \<lparr>frame_id = hid, frame_tag = None, frame_value = Null\<rparr>
      in if byte_at bytes 9 \<noteq> Some 0 then result
         else
           (case frameTypes D hid of
              None \<Rightarrow> result
            | Some tag \<Rightarrow>
                result\<lparr>frame_tag := Some tag, frame_value := frame_content D hid bytes\<rparr>))"

section \<open>Walking the frames: \<^verbatim>\<open>parseV2Frames\<close>\<close>

text \<open>
  The tag object: its own properties, by name. Property names inherited from
  \<^verbatim>\<open>Object.prototype\<close> are outside the model (the semantic tags of the frame-type table
  are taken to be ordinary names).
\<close>

type_synonym tags = "jsstring \<rightharpoonup> jsval"

text \<open>
  What the parser can throw: its own \<^verbatim>\<open>Error('no support for unsynchronisation')\<close>,
  and the \<^verbatim>\<open>TypeError\<close> of calling \<^verbatim>\<open>push\<close> on a value that is not an array.
\<close>

datatype error = NoUnsyncSupport | TypeError

text \<open>
  The head of one turn of the \<^verbatim>\<open>while\<close> loop at cursor \<open>position\<close>: the loop test,
  the size field read from \<^verbatim>\<open>bytes.slice(position + 4)\<close>, the \<^verbatim>\<open>break\<close> on size 0,
  the slice \<^verbatim>\<open>bytes.slice(position, position + 10 + size)\<close> and the \<^verbatim>\<open>break\<close> on
  an empty slice. \<open>None\<close> ends the loop; otherwise the slice and the size are handed to
  \<^verbatim>\<open>parseFrame\<close>.
\<close>

definition next_frame :: "bytes \<Rightarrow> nat \<Rightarrow> (bytes \<times> nat) option" where
  "next_frame bytes position =
     (if position < length bytes then
        (let fsize = calcFrameSize (slice_from bytes (int (position + 4))) in
         if fsize = 0 then None
         else
           (let sl = slice bytes (int position) (int (position + 10 + fsize)) in
            if length sl = 0 then None else Some (sl, fsize)))
      else None)"

text \<open>
  The rest of the turn: a frame with a truthy tag is stored. For an identifier of class
  \<^verbatim>\<open>'array'\<close> the value is pushed on the array already stored under the tag, or a new
  one-element array is stored when the property is missing or falsy; \<^verbatim>\<open>push\<close> on a
  truthy value that is not an array throws. Every other identifier overwrites.
\<close>

definition store_frame :: "deps \<Rightarrow> tags \<Rightarrow> frame_result \<Rightarrow> error + tags" where
  "store_frame D tags frame =
     (case frame_tag frame of
        None \<Rightarrow> Inr tags
      | Some t \<Rightarrow>
          if t = [] then Inr tags
          else if FrameTypeValueMap D (frame_id frame) = Some (js ''array'') then
            (case tags t of
               None \<Rightarrow> Inr (tags(t \<mapsto> Arr [frame_value frame]))
             | Some (Arr xs) \<Rightarrow> Inr (tags(t \<mapsto> Arr (xs @ [frame_value frame])))
             | Some v \<Rightarrow>
                 if truthy v then Inl TypeError
                 else Inr (tags(t \<mapsto> Arr [frame_value frame])))
          else Inr (tags(t \<mapsto> frame_value frame)))"

text \<open>
  The loop from cursor \<open>position\<close>. \<open>vminor\<close> is \<^verbatim>\<open>tags.version.minor\<close>, read through
  the variable \<^verbatim>\<open>version\<close> that is bound before the loop.
\<close>

function parseV2Frames_loop ::
  "deps \<Rightarrow> bytes \<Rightarrow> byte \<Rightarrow> nat \<Rightarrow> tags \<Rightarrow> error + tags" where
  "parseV2Frames_loop D bytes vminor position tags =
     (case next_frame bytes position of
        None \<Rightarrow> Inr tags
      | Some (sl, fsize) \<Rightarrow>
          (case store_frame D tags (parseFrame D sl vminor fsize) of
             Inl e \<Rightarrow> Inl e
           | Inr tags' \<Rightarrow> parseV2Frames_loop D bytes vminor (position + length sl) tags'))"
  by pat_completeness auto
termination
proof (relation "measure (\<lambda>(D, bytes, vminor, position, tags). length bytes - position)")
  fix D :: deps and bytes :: bytes and vminor :: byte and position :: nat and tags :: tags
    and x2 :: "bytes \<times> nat" and sl :: bytes and fsize :: nat and tags' :: tags
  assume "next_frame bytes position = Some x2" and "(sl, fsize) = x2"
  then have "position < length bytes \<and> 0 < length sl"
    by (auto simp: next_frame_def Let_def split: if_splits)
  then show "((D, bytes, vminor, position + length sl, tags'),
              (D, bytes, vminor, position, tags))
             \<in> measure (\<lambda>(D, bytes, vminor, position, tags). length bytes - position)"
    by (cases sl) simp_all
qed simp

definition parseV2Frames :: "deps \<Rightarrow> bytes \<Rightarrow> byte \<Rightarrow> tags \<Rightarrow> error + tags" where
  "parseV2Frames D bytes vminor tags = parseV2Frames_loop D bytes vminor 0 tags"

text \<open>
  The same loop with a budget of turns: every execution of the loop body takes one unit,
  and \<open>None\<close> means that the budget ran out before the loop ended.
\<close>

fun parseV2Frames_fuel ::
  "nat \<Rightarrow> deps \<Rightarrow> bytes \<Rightarrow> byte \<Rightarrow> nat \<Rightarrow> tags \<Rightarrow> (error + tags) option" where
  "parseV2Frames_fuel 0 D bytes vminor position tags =
     (if position < length bytes then None else Some (Inr tags))"
| "parseV2Frames_fuel (Suc n) D bytes vminor position tags =
     (case next_frame bytes position of
        None \<Rightarrow> Some (Inr tags)
      | Some (sl, fsize) \<Rightarrow>
          (case store_frame D tags (parseFrame D sl vminor fsize) of
             Inl e \<Rightarrow> Some (Inl e)
           | Inr tags' \<Rightarrow> parseV2Frames_fuel n D bytes vminor (position + length sl) tags'))"

text \<open>
  The slices and sizes handed to \<^verbatim>\<open>parseFrame\<close> from cursor \<open>position\<close> on, in order,
  when no \<^verbatim>\<open>push\<close> throws.
\<close>

function frame_slices :: "bytes \<Rightarrow> nat \<Rightarrow> (bytes \<times> nat) list" where
  "frame_slices bytes position =
     (case next_frame bytes position of
        None \<Rightarrow> []
      | Some (sl, fsize) \<Rightarrow> (sl, fsize) # frame_slices bytes (position + length sl))"
  by pat_completeness auto
termination
proof (relation "measure (\<lambda>(bytes, position). length bytes - position)")
  fix bytes :: bytes and position :: nat and x2 :: "bytes \<times> nat" and sl :: bytes
    and fsize :: nat
  assume "next_frame bytes position = Some x2" and "(sl, fsize) = x2"
  then have "position < length bytes \<and> 0 < length sl"
    by (auto simp: next_frame_def Let_def split: if_splits)
  then show "((bytes, position + length sl), (bytes, position))
             \<in> measure (\<lambda>(bytes, position). length bytes - position)"
    by (cases sl) simp_all
qed simp

section \<open>The tag header and \<^verbatim>\<open>parseV2Data\<close>\<close>

record version_flags =
  flag_unsync :: bool
  flag_xheader :: bool
  flag_experimental :: bool

record version =
  version_major :: nat
  version_minor :: byte
  version_revision :: byte
  version_flags :: version_flags

text \<open>The version as the object stored under \<^verbatim>\<open>tags.version\<close>.\<close>

definition version_obj :: "version \<Rightarrow> jsval" where
  "version_obj v =
     Obj [(''major'', Num (int (version_major v))),
          (''minor'', Num (uint (version_minor v))),
          (''revision'', Num (uint (version_revision v))),
          (''flags'',
             Obj [(''unsync'', Bool (flag_unsync (version_flags v))),
                  (''xheader'', Bool (flag_xheader (version_flags v))),
                  (''experimental'', Bool (flag_experimental (version_flags v)))])]"

text \<open>
  \<^verbatim>\<open>parseV2Header\<close>: \<open>None\<close> is the result \<^verbatim>\<open>false\<close>; otherwise the version of the
  object \<^verbatim>\<open>{version: version}\<close> that it returns.
\<close>

definition parseV2Header :: "deps \<Rightarrow> bytes option \<Rightarrow> version option" where
  "parseV2Header D b =
     (case b of
        None \<Rightarrow> None
      | Some bytes \<Rightarrow>
          if length bytes < 10 then None
          else if readBytesToUTF8 D bytes (Some 3) \<noteq> js ''ID3'' then None
          else
            (let flagByte = bytes ! 5 in
             Some \<lparr>version_major = 2,
                   version_minor = bytes ! 3,
                   version_revision = bytes ! 4,
                   version_flags =
                     \<lparr>flag_unsync = (flagByte AND 0x80 \<noteq> 0),
                      flag_xheader = (flagByte AND 0x40 \<noteq> 0),
                      flag_experimental = (flagByte AND 0x20 \<noteq> 0)\<rparr>\<rparr>))"

text \<open>
  \<^verbatim>\<open>parseV2Data\<close>, exported as \<^verbatim>\<open>parseV2Tag\<close>. A missing buffer is \<open>None\<close>. The result
  is \<open>Inr None\<close> for \<^verbatim>\<open>false\<close>, \<open>Inr (Some tags)\<close> for the tag object and \<open>Inl e\<close> for
  a thrown error.
\<close>

definition parseV2Data :: "deps \<Rightarrow> bytes option \<Rightarrow> error + tags option" where
  "parseV2Data D b =
     (case b of
        None \<Rightarrow> Inr None
      | Some bytes \<Rightarrow>
          if length bytes < V2_MIN_LENGTH then Inr None
          else
            (case parseV2Header D (Some (slice bytes 0 10)) of
               None \<Rightarrow> Inr None
             | Some v \<Rightarrow>
                 if flag_unsync (version_flags v) then Inl NoUnsyncSupport
                 else
                   (let headerSize =
                          (if flag_xheader (version_flags v)
                           then 10 + calcTagSize (slice bytes 10 14) else 10);
                        tagSize = calcTagSize (slice bytes 6 10)
                    in case parseV2Frames D
                              (slice bytes (int headerSize) (int (tagSize + headerSize)))
                              (version_minor v) [js ''version'' \<mapsto> version_obj v] of
                         Inl e \<Rightarrow> Inl e
                       | Inr tags \<Rightarrow> Inr (Some tags))))"

section \<open>A concrete set of collaborators\<close>

text \<open>
  Modelled from the spec: the utilities of \<^verbatim>\<open>../utils\<close> and the tables of
  \<^verbatim>\<open>../constants\<close> are not among the sources. The general theorems below hold for every
  value of the record \<open>deps\<close>; the definitions of this section give one value, used
  where a theorem is applied to a concrete buffer. They follow the interfaces the spec
  lists: an ISO-8859-1 decoder and an encoding-aware decoder with an optional length
  (encodings 0 = ISO-8859-1, 1 = UCS-2 with byte order mark, 2 = UTF-16BE, 3 = UTF-8), a
  terminator locator that returns an offset (one null byte for the single-byte encodings,
  two for the double-byte ones), a helper that skips null bytes from an offset, and the
  four static tables, of which the spec names index 17 of the genres (\<^verbatim>\<open>Rock\<close>) and
  index 3 of the picture types (\<^verbatim>\<open>Cover (front)\<close>).
\<close>

text \<open>
  Modelled from the spec: the optional length. An omitted length reads every byte, a
  given one at most that many.
\<close>

definition limit_bytes :: "bytes \<Rightarrow> int option \<Rightarrow> bytes" where
  "limit_bytes bs maxToRead = (case maxToRead of None \<Rightarrow> bs | Some n \<Rightarrow> take (nat n) bs)"

text \<open>Modelled from the spec: ISO-8859-1, every byte is the character of that code.\<close>

definition spec_readBytesToISO8859 :: "bytes \<Rightarrow> int option \<Rightarrow> jsstring" where
  "spec_readBytesToISO8859 bs maxToRead = map ucast (limit_bytes bs maxToRead)"

text \<open>
  Modelled from the spec: UTF-8 with sequences of one, two and three bytes; any other
  byte is read as U+FFFD.
\<close>

fun utf8_units :: "bytes \<Rightarrow> jsstring" where
  "utf8_units [] = []"
| "utf8_units [a] = [if a < 0x80 then ucast a else 0xFFFD]"
| "utf8_units [a, b] =
     (if a < 0x80 then ucast a # utf8_units [b]
      else if 0xC0 \<le> a \<and> a < 0xE0
        then [push_bit 6 (ucast (a AND 0x1F)) OR ucast (b AND 0x3F)]
      else 0xFFFD # utf8_units [b])"
| "utf8_units (a # b # c # bs) =
     (if a < 0x80 then ucast a # utf8_units (b # c # bs)
      else if 0xC0 \<le> a \<and> a < 0xE0
        then (push_bit 6 (ucast (a AND 0x1F)) OR ucast (b AND 0x3F)) # utf8_units (c # bs)
      else if 0xE0 \<le> a \<and> a < 0xF0
        then (push_bit 12 (ucast (a AND 0x0F)) OR push_bit 6 (ucast (b AND 0x3F)) OR
              ucast (c AND 0x3F)) # utf8_units bs
      else 0xFFFD # utf8_units (b # c # bs))"

text \<open>Modelled from the spec: the UTF-8 reader with its optional length.\<close>

definition spec_readBytesToUTF8 :: "bytes \<Rightarrow> int option \<Rightarrow> jsstring" where
  "spec_readBytesToUTF8 bs maxToRead = utf8_units (limit_bytes bs maxToRead)"

text \<open>
  Modelled from the spec: 16-bit code units of two bytes each, big-endian unless a byte
  order mark \<^verbatim>\<open>FF FE\<close> says otherwise; the mark is read for encoding 1 only.
\<close>

fun utf16_units :: "bool \<Rightarrow> bytes \<Rightarrow> jsstring" where
  "utf16_units be (a # b # bs) =
     (if be then push_bit 8 (ucast a) OR ucast b else push_bit 8 (ucast b) OR ucast a)
     # utf16_units be bs"
| "utf16_units be bs = []"

text \<open>Modelled from the spec: the code units behind an optional byte order mark.\<close>

definition ucs2_units :: "bytes \<Rightarrow> jsstring" where
  "ucs2_units bs =
     (if take 2 bs = [0xFF, 0xFE] then utf16_units False (drop 2 bs)
      else if take 2 bs = [0xFE, 0xFF] then utf16_units True (drop 2 bs)
      else utf16_units True bs)"

text \<open>Modelled from the spec: the decoder chosen by the encoding byte, \<^verbatim>\<open>null\<close> for
  any other encoding.\<close>

definition spec_readBytesToString :: "bytes \<Rightarrow> byte option \<Rightarrow> int option \<Rightarrow> jsstring option" where
  "spec_readBytesToString bs encoding maxToRead =
     (if encoding = Some 0 then Some (spec_readBytesToISO8859 bs maxToRead)
      else if encoding = Some 1 then Some (ucs2_units (limit_bytes bs maxToRead))
      else if encoding = Some 2 then Some (utf16_units True (limit_bytes bs maxToRead))
      else if encoding = Some 3 then Some (spec_readBytesToUTF8 bs maxToRead)
      else None)"

text \<open>
  Modelled from the spec: the offset of the first terminator at or after \<open>start\<close>, the
  offset where the buffer ends when there is none. \<open>find_null wide bs i\<close> scans \<open>bs\<close>,
  whose first byte has offset \<open>i\<close>.
\<close>

fun find_null :: "bool \<Rightarrow> bytes \<Rightarrow> nat \<Rightarrow> nat" where
  "find_null wide [] i = i"
| "find_null wide (b # bs) i =
     (if b = 0 \<and> (\<not> wide \<or> (bs \<noteq> [] \<and> hd bs = 0)) then i
      else find_null wide bs (Suc i))"

text \<open>Modelled from the spec: the terminator locator; the terminator has two bytes for
  encodings 1 and 2.\<close>

definition spec_getEndpointOfBytes :: "bytes \<Rightarrow> byte option \<Rightarrow> int \<Rightarrow> int" where
  "spec_getEndpointOfBytes bs encoding start =
     int (find_null (encoding = Some 1 \<or> encoding = Some 2) (drop (nat start) bs) (nat start))"

text \<open>Modelled from the spec: the offset of the first byte at or after \<open>start\<close> that is
  not a null byte.\<close>

fun skip_nulls :: "bytes \<Rightarrow> nat \<Rightarrow> nat" where
  "skip_nulls [] i = i"
| "skip_nulls (b # bs) i = (if b = 0 then skip_nulls bs (Suc i) else i)"

text \<open>Modelled from the spec: the helper that skips null bytes; an index before the
  buffer holds no byte, so a negative offset is returned as it is.\<close>

definition spec_skipPaddingZeros :: "bytes \<Rightarrow> int \<Rightarrow> int" where
  "spec_skipPaddingZeros bs start =
     (if start < 0 then start else int (skip_nulls (drop (nat start) bs) (nat start)))"

text \<open>
  Modelled from the spec: sample tables. The semantic tags are those the spec mentions
  (title, artist, album, genre, comments, links, pictures, ownership); the comment frame
  is the multi-valued one; the genres are the first eighteen of the ID3v1 list, which
  ends with \<^verbatim>\<open>Rock\<close> at index 17.
\<close>

definition spec_frameTypes :: "jsstring \<rightharpoonup> jsstring" where
  "spec_frameTypes =
     map_of [(js ''TIT2'', js ''title''), (js ''TPE1'', js ''artist''),
             (js ''TALB'', js ''album''), (js ''TCON'', js ''genre''),
             (js ''COMM'', js ''comments''), (js ''WOAR'', js ''artist-url''),
             (js ''WXXX'', js ''user-url''), (js ''APIC'', js ''image''),
             (js ''OWNE'', js ''ownership'')]"

text \<open>Modelled from the spec: the class of each identifier of the sample table.\<close>

definition spec_FrameTypeValueMap :: "jsstring \<rightharpoonup> jsstring" where
  "spec_FrameTypeValueMap =
     map_of [(js ''TIT2'', js ''string''), (js ''TPE1'', js ''string''),
             (js ''TALB'', js ''string''), (js ''TCON'', js ''string''),
             (js ''COMM'', js ''array''), (js ''WOAR'', js ''string''),
             (js ''WXXX'', js ''string''), (js ''APIC'', js ''object''),
             (js ''OWNE'', js ''object'')]"

text \<open>Modelled from the spec: the sample genre table.\<close>

definition spec_genres :: "jsstring list" where
  "spec_genres =
     map js [''Blues'', ''Classic Rock'', ''Country'', ''Dance'', ''Disco'', ''Funk'',
             ''Grunge'', ''Hip-Hop'', ''Jazz'', ''Metal'', ''New Age'', ''Oldies'',
             ''Other'', ''Pop'', ''R&B'', ''Rap'', ''Reggae'', ''Rock'']"

text \<open>Modelled from the spec: the first four picture types.\<close>

definition spec_imageTypes :: "jsstring list" where
  "spec_imageTypes =
     map js [''Other'', ''32x32 pixels file icon'', ''Other file icon'', ''Cover (front)'']"

text \<open>Modelled from the spec: the collaborators of this section as one record.\<close>

definition spec_deps :: deps where
  "spec_deps =
     \<lparr>readBytesToUTF8 = spec_readBytesToUTF8,
      readBytesToISO8859 = spec_readBytesToISO8859,
      readBytesToString = spec_readBytesToString,
      getEndpointOfBytes = spec_getEndpointOfBytes,
      skipPaddingZeros = spec_skipPaddingZeros,
      frameTypes = spec_frameTypes,
      FrameTypeValueMap = spec_FrameTypeValueMap,
      genres = spec_genres,
      imageTypes = spec_imageTypes\<rparr>"

text \<open>The bytes of an ASCII string.\<close>

definition ascii :: "string \<Rightarrow> bytes" where
  "ascii s = map of_char s"

section \<open>The loop as a fold over the decoded frames\<close>

text \<open>Storing a sequence of decoded frames, one after the other, up to the first
  \<^verbatim>\<open>push\<close> that throws.\<close>

fun store_frames :: "deps \<Rightarrow> tags \<Rightarrow> frame_result list \<Rightarrow> error + tags" where
  "store_frames D tags [] = Inr tags"
| "store_frames D tags (f # fs) =
     (case store_frame D tags f of
        Inl e \<Rightarrow> Inl e
      | Inr tags' \<Rightarrow> store_frames D tags' fs)"

text \<open>The results of \<^verbatim>\<open>parseFrame\<close> on the slices handed to it from cursor \<open>position\<close>
  on.\<close>

definition decoded_frames :: "deps \<Rightarrow> byte \<Rightarrow> bytes \<Rightarrow> nat \<Rightarrow> frame_result list" where
  "decoded_frames D vminor bytes position =
     map (\<lambda>(sl, fsize). parseFrame D sl vminor fsize) (frame_slices bytes position)"

section \<open>Assumptions on the collaborators\<close>

text \<open>
  The header's identifier is read by \<^verbatim>\<open>readBytesToUTF8(bytes, 3)\<close> and compared with
  \<^verbatim>\<open>'ID3'\<close>. \<open>reads_magic D bytes\<close> says that on the header of this buffer the reader
  agrees with a comparison of the first three bytes.
\<close>

definition reads_magic :: "deps \<Rightarrow> bytes \<Rightarrow> bool" where
  "reads_magic D bytes \<longleftrightarrow>
     (readBytesToUTF8 D (take 10 bytes) (Some 3) = js ''ID3'') = (take 3 bytes = ascii ''ID3'')"

text \<open>
  The two static tables fit together when the identifiers of one semantic tag are all of
  class \<^verbatim>\<open>'array'\<close> or none of them is, and no identifier of class \<^verbatim>\<open>'array'\<close> has the
  semantic tag \<^verbatim>\<open>version\<close>, the property that holds the version object. On tables that
  do not, \<^verbatim>\<open>push\<close> can be called on a value that is not an array.
\<close>

definition tables_consistent :: "deps \<Rightarrow> bool" where
  "tables_consistent D \<longleftrightarrow>
     (\<forall>i j t. frameTypes D i = Some t \<and> frameTypes D j = Some t \<longrightarrow>
        (FrameTypeValueMap D i = Some (js ''array'')) =
        (FrameTypeValueMap D j = Some (js ''array''))) \<and>
     (\<forall>i. frameTypes D i = Some (js ''version'') \<longrightarrow>
        FrameTypeValueMap D i \<noteq> Some (js ''array''))"

text \<open>The invariant of the loop on such tables: a truthy value stored under the semantic
  tag of an identifier of class \<^verbatim>\<open>'array'\<close> is an array.\<close>

definition array_slots_ok :: "deps \<Rightarrow> tags \<Rightarrow> bool" where
  "array_slots_ok D tags \<longleftrightarrow>
     (\<forall>i t v. frameTypes D i = Some t \<and> FrameTypeValueMap D i = Some (js ''array'') \<and>
        tags t = Some v \<and> truthy v \<longrightarrow> (\<exists>xs. v = Arr xs))"

text \<open>The ISO-8859-1 reader, called without a length, turns every byte into the character
  of the same code.\<close>

definition decodes_latin1 :: "deps \<Rightarrow> bool" where
  "decodes_latin1 D \<longleftrightarrow> (\<forall>bs. readBytesToISO8859 D bs None = map ucast bs)"

section \<open>Strings of groups and digits\<close>

text \<open>A parenthesised group \<^verbatim>\<open>(ds)\<close>.\<close>

definition group :: "jsstring \<Rightarrow> jsstring" where
  "group ds = 0x28 # ds @ [0x29]"

text \<open>A non-empty string of decimal digits.\<close>

definition digits :: "jsstring \<Rightarrow> bool" where
  "digits ds \<longleftrightarrow> ds \<noteq> [] \<and> list_all is_digit ds"

section \<open>Sample buffers\<close>

text \<open>A frame with identifier \<open>fid\<close>, a size field holding \<open>n\<close> (below 256), both flag
  bytes 0 and the given payload.\<close>

definition frame :: "string \<Rightarrow> nat \<Rightarrow> bytes \<Rightarrow> bytes" where
  "frame fid n payload = ascii fid @ [0, 0, 0, of_nat n, 0, 0] @ payload"

text \<open>A version 2.3 tag header with the given flag byte and a size field holding \<open>n\<close>
  (below 128).\<close>

definition tag_header :: "byte \<Rightarrow> nat \<Rightarrow> bytes" where
  "tag_header flagByte n = ascii ''ID3'' @ [3, 0, flagByte, 0, 0, 0, of_nat n]"

text \<open>A tag with the unsynchronisation flag set, holding one empty frame header.\<close>

definition unsync_tag :: bytes where
  "unsync_tag = tag_header 0x80 10 @ ascii ''TIT2'' @ [0, 0, 0, 0, 0, 0]"

text \<open>Twenty bytes that do not start with \<^verbatim>\<open>ID3\<close>.\<close>

definition no_tag :: bytes where
  "no_tag = ascii ''RIFF'' @ replicate 16 0"

text \<open>A body of 13 bytes whose only frame declares 100 bytes of payload.\<close>

definition truncated_body :: bytes where
  "truncated_body = frame ''TIT2'' 100 (0 # ascii ''Hi'')"

text \<open>The same body behind a tag header that declares 13 bytes.\<close>

definition truncated_tag :: bytes where
  "truncated_tag = tag_header 0 13 @ truncated_body"

text \<open>A title frame whose second flag byte is 1, and an album frame to follow it.\<close>

definition flagged_frame :: bytes where
  "flagged_frame = ascii ''TIT2'' @ [0, 0, 0, 3, 0, 1] @ (0 # ascii ''Hi'')"

definition album_frame :: bytes where
  "album_frame = frame ''TALB'' 3 (0 # ascii ''Lp'')"

text \<open>Two comment frames with different languages, each with an empty description.\<close>

definition comment_eng :: bytes where
  "comment_eng = frame ''COMM'' 6 (0 # ascii ''eng'' @ [0] @ ascii ''A'')"

definition comment_deu :: bytes where
  "comment_deu = frame ''COMM'' 6 (0 # ascii ''deu'' @ [0] @ ascii ''B'')"

text \<open>Two title frames.\<close>

definition title_hi :: bytes where
  "title_hi = frame ''TIT2'' 3 (0 # ascii ''Hi'')"

definition title_yo :: bytes where
  "title_yo = frame ''TIT2'' 3 (0 # ascii ''Yo'')"

text \<open>The values decoded from the two comment frames.\<close>

definition comment_eng_value :: jsval where
  "comment_eng_value =
     Obj [(''language'', Str (js ''eng'')), (''description'', Str []), (''value'', Str (js ''A''))]"

definition comment_deu_value :: jsval where
  "comment_deu_value =
     Obj [(''language'', Str (js ''deu'')), (''description'', Str []), (''value'', Str (js ''B''))]"

text \<open>A user-defined URL frame whose first payload byte is 1.\<close>

definition url_frame :: bytes where
  "url_frame = frame ''WXXX'' 5 (1 # ascii ''http'')"

text \<open>An ownership frame: encoding 0, price \<^verbatim>\<open>1\<close>, a null byte, date \<^verbatim>\<open>20200101\<close>,
  seller \<^verbatim>\<open>S\<close>.\<close>

definition owne_frame :: bytes where
  "owne_frame = frame ''OWNE'' 12 (0 # ascii ''1'' @ [0] @ ascii ''20200101'' @ ascii ''S'')"

text \<open>A picture frame: encoding 0, MIME type \<^verbatim>\<open>a\<close>, a null byte, picture type 3, and
  two bytes that are not null.\<close>

definition picture_no_null :: bytes where
  "picture_no_null = frame ''APIC'' 6 (0 # ascii ''a'' @ [0, 3] @ ascii ''xy'')"

text \<open>Genre frames with encoding 0 and the given text.\<close>

definition genre_frame :: "string \<Rightarrow> bytes" where
  "genre_frame s = frame ''TCON'' (Suc (length s)) (0 # ascii s)"

text \<open>The user-defined URL frame with its second flag byte set to 1.\<close>

definition flagged_url_frame :: bytes where
  "flagged_url_frame = ascii ''WXXX'' @ [0, 0, 0, 5, 0, 1] @ (1 # ascii ''http'')"

text \<open>Modelled from the spec: the concrete collaborators with a frame-type table that has
  no key \<^verbatim>\<open>WXXX\<close>.\<close>

definition spec_deps_no_WXXX :: deps where
  "spec_deps_no_WXXX = spec_deps\<lparr>frameTypes := spec_frameTypes(js ''WXXX'' := None)\<rparr>"

section \<open>Properties\<close>

subsection \<open>Slices at non-negative indices\<close>

lemma slice_from_int [simp]: "slice_from bs (int n) = drop n bs"
  by (simp add: slice_from_def rel_index_def min_def)

lemma slice_int [simp]: "slice bs (int a) (int b) = take (b - a) (drop a bs)"
  by (auto simp: slice_def rel_index_def Let_def min_def)

lemma slice_0 [simp]: "slice bs 0 (int b) = take b bs"
  using slice_int [of bs 0 b] by simp

lemma slice_from_numeral [simp]: "slice_from bs (numeral k) = drop (numeral k) bs"
  using slice_from_int [of bs "numeral k"] by simp

lemma slice_numeral [simp]:
  "slice bs (numeral a) (numeral b) = take (numeral b - numeral a) (drop (numeral a) bs)"
  using slice_int [of bs "numeral a" "numeral b"] by simp

lemma slice_0_numeral [simp]: "slice bs 0 (numeral b) = take (numeral b) bs"
  using slice_0 [of bs "numeral b"] by simp

subsection \<open>The tag header\<close>

lemma parseV2Header_Some:
  assumes "10 \<le> length bytes" "reads_magic D bytes" "take 3 bytes = ascii ''ID3''"
  shows "\<exists>v. parseV2Header D (Some (take 10 bytes)) = Some v \<and>
            flag_unsync (version_flags v) = (bytes ! 5 AND 0x80 \<noteq> 0)"
  using assms by (simp add: parseV2Header_def reads_magic_def Let_def)

lemma parseV2Header_None:
  assumes "10 \<le> length bytes" "reads_magic D bytes" "take 3 bytes \<noteq> ascii ''ID3''"
  shows "parseV2Header D (Some (take 10 bytes)) = None"
  using assms by (simp add: parseV2Header_def reads_magic_def)

text \<open>
  C6. A buffer of at least 20 bytes that starts with the bytes \<^verbatim>\<open>ID3\<close> and whose flag
  byte (byte 5) has bit \<^verbatim>\<open>0x80\<close> set makes \<^verbatim>\<open>parseV2Data\<close> throw its
  "no support for unsynchronisation" error: the result is neither a tag object nor
  \<^verbatim>\<open>false\<close>. The identifier reader is assumed to agree with the byte comparison on this
  header.
\<close>

theorem parseV2Data_unsync_throws:
  assumes "20 \<le> length bytes"
    and "take 3 bytes = ascii ''ID3''"
    and "reads_magic D bytes"
    and "bytes ! 5 AND 0x80 \<noteq> 0"
  shows "parseV2Data D (Some bytes) = Inl NoUnsyncSupport"
proof -
  from assms obtain v where "parseV2Header D (Some (take 10 bytes)) = Some v"
    and "flag_unsync (version_flags v)"
    using parseV2Header_Some [of bytes D] by auto
  with assms(1) show ?thesis
    by (simp add: parseV2Data_def V2_MIN_LENGTH_def)
qed

theorem parseV2Data_unsync_throws_witness:
  "20 \<le> length unsync_tag \<and> take 3 unsync_tag = ascii ''ID3'' \<and>
   reads_magic spec_deps unsync_tag \<and> unsync_tag ! 5 AND 0x80 \<noteq> 0 \<and>
   parseV2Data spec_deps (Some unsync_tag) = Inl NoUnsyncSupport"
proof -
  have a: "20 \<le> length unsync_tag"
    by (simp add: unsync_tag_def tag_header_def ascii_def)
  have b: "take 3 unsync_tag = ascii ''ID3''"
    by (simp add: unsync_tag_def tag_header_def ascii_def)
  have c: "reads_magic spec_deps unsync_tag"
    by (simp add: reads_magic_def unsync_tag_def tag_header_def ascii_def js_def spec_deps_def
        spec_readBytesToUTF8_def limit_bytes_def)
  have d: "unsync_tag ! 5 AND 0x80 \<noteq> 0"
    by (simp add: unsync_tag_def tag_header_def ascii_def)
  from parseV2Data_unsync_throws [OF a b c d] a b c d show ?thesis by simp
qed

subsection \<open>The frame iterator\<close>

declare parseV2Frames_loop.simps [simp del]
declare frame_slices.simps [simp del]
declare description_scan.simps [simp del]
declare description_scan_reads.simps [simp del]

lemma next_frame_alt:
  "next_frame bytes p =
     (if p < length bytes \<and> calcFrameSize (drop (p + 4) bytes) \<noteq> 0
      then Some (take (10 + calcFrameSize (drop (p + 4) bytes)) (drop p bytes),
                 calcFrameSize (drop (p + 4) bytes))
      else None)"
  unfolding next_frame_def slice_from_int slice_int by (simp add: Let_def)

lemma next_frame_Some_iff:
  "next_frame bytes p = Some (sl, n) \<longleftrightarrow>
     p < length bytes \<and> n = calcFrameSize (drop (p + 4) bytes) \<and> n \<noteq> 0 \<and>
     sl = take (10 + n) (drop p bytes)"
  by (auto simp: next_frame_alt)

lemma next_frame_None_iff:
  "next_frame bytes p = None \<longleftrightarrow>
     length bytes \<le> p \<or> calcFrameSize (drop (p + 4) bytes) = 0"
  by (auto simp: next_frame_alt)

lemma calcFrameSize_nonzero_length: "calcFrameSize bs \<noteq> 0 \<Longrightarrow> 4 \<le> length bs"
  by (auto simp: calcFrameSize_def split: if_splits)

lemma next_frame_length:
  assumes "next_frame bytes p = Some (sl, n)"
  shows "length sl = min (10 + n) (length bytes - p)" and "8 \<le> length sl" and "0 < n"
    and "p + 8 \<le> length bytes"
proof -
  from assms have n: "n = calcFrameSize (drop (p + 4) bytes)" "n \<noteq> 0"
    and sl: "sl = take (10 + n) (drop p bytes)"
    by (simp_all add: next_frame_Some_iff)
  from n have "4 \<le> length (drop (p + 4) bytes)"
    using calcFrameSize_nonzero_length by blast
  then show *: "p + 8 \<le> length bytes" by simp
  from * show "8 \<le> length sl" using sl n by simp
  show "length sl = min (10 + n) (length bytes - p)" using sl by (simp add: min.commute)
  show "0 < n" using n by simp
qed

lemma next_frame_drop: "next_frame (drop p bytes) 0 = next_frame bytes p"
  by (simp add: next_frame_alt add.commute)

lemma frame_slices_None: "next_frame bytes p = None \<Longrightarrow> frame_slices bytes p = []"
  by (simp add: frame_slices.simps [of bytes p])

lemma frame_slices_Some:
  "next_frame bytes p = Some (sl, n) \<Longrightarrow>
   frame_slices bytes p = (sl, n) # frame_slices bytes (p + length sl)"
  by (simp add: frame_slices.simps [of bytes p])

lemma frame_slices_drop: "frame_slices bytes p = frame_slices (drop p bytes) 0"
proof (induction "length bytes - p" arbitrary: bytes p rule: less_induct)
  case less
  show ?case
  proof (cases "next_frame bytes p")
    case None
    then show ?thesis
      using next_frame_drop [of p bytes] by (simp add: frame_slices_None)
  next
    case (Some a)
    obtain sl n where a: "a = (sl, n)" by (cases a)
    from Some a have nf: "next_frame bytes p = Some (sl, n)" by simp
    then have nf': "next_frame (drop p bytes) 0 = Some (sl, n)"
      by (simp add: next_frame_drop)
    from next_frame_length [OF nf] have len: "8 \<le> length sl" "p + 8 \<le> length bytes"
      by simp_all
    from len have d1: "length bytes - (p + length sl) < length bytes - p" by linarith
    from len have d2: "length (drop p bytes) - length sl < length bytes - p" by simp
    have 1: "frame_slices bytes (p + length sl) = frame_slices (drop (p + length sl) bytes) 0"
      by (rule less [OF d1])
    have 2: "frame_slices (drop p bytes) (length sl) =
             frame_slices (drop (length sl) (drop p bytes)) 0"
      by (rule less [OF d2])
    show ?thesis
      using frame_slices_Some [OF nf] frame_slices_Some [OF nf'] 1 2
      by (simp add: add.commute)
  qed
qed

lemma loop_as_fold:
  "parseV2Frames_loop D bytes v p tags = store_frames D tags (decoded_frames D v bytes p)"
proof (induction D bytes v p tags rule: parseV2Frames_loop.induct)
  case (1 D bytes v p tags)
  show ?case
  proof (cases "next_frame bytes p")
    case None
    then show ?thesis
      by (simp add: parseV2Frames_loop.simps [of D bytes v p] decoded_frames_def
          frame_slices_None)
  next
    case (Some a)
    obtain sl n where a: "a = (sl, n)" by (cases a)
    from Some a have nf: "next_frame bytes p = Some (sl, n)" by simp
    show ?thesis
    proof (cases "store_frame D tags (parseFrame D sl v n)")
      case (Inl e)
      with nf show ?thesis
        by (simp add: parseV2Frames_loop.simps [of D bytes v p] decoded_frames_def
            frame_slices_Some)
    next
      case (Inr tags')
      with 1 nf a have "parseV2Frames_loop D bytes v (p + length sl) tags' =
          store_frames D tags' (decoded_frames D v bytes (p + length sl))"
        by simp
      with nf Inr show ?thesis
        by (simp add: parseV2Frames_loop.simps [of D bytes v p] decoded_frames_def
            frame_slices_Some)
    qed
  qed
qed

lemma loop_drop:
  "parseV2Frames_loop D bytes v p tags = parseV2Frames_loop D (drop p bytes) v 0 tags"
  using frame_slices_drop [of bytes p] by (simp add: loop_as_fold decoded_frames_def)

lemma fuel_enough:
  "length bytes \<le> p \<or> (length bytes - p) div 11 + 1 \<le> k \<Longrightarrow>
   parseV2Frames_fuel k D bytes v p tags = Some (parseV2Frames_loop D bytes v p tags)"
proof (induction k arbitrary: p tags)
  case 0
  then have "length bytes \<le> p" by simp
  then have "next_frame bytes p = None" by (simp add: next_frame_None_iff)
  with \<open>length bytes \<le> p\<close> show ?case
    by (simp add: parseV2Frames_loop.simps [of D bytes v p])
next
  case (Suc k)
  show ?case
  proof (cases "next_frame bytes p")
    case None
    then show ?thesis by (simp add: parseV2Frames_loop.simps [of D bytes v p])
  next
    case (Some a)
    obtain sl n where a: "a = (sl, n)" by (cases a)
    from Some a have nf: "next_frame bytes p = Some (sl, n)" by simp
    note len = next_frame_length [OF nf]
    have next_ok: "length bytes \<le> p + length sl \<or>
                   (length bytes - (p + length sl)) div 11 + 1 \<le> k"
    proof (cases "length sl = 10 + n")
      case True
      with len(3) have "11 \<le> length sl" by simp
      moreover from Suc.prems len(4) have "(length bytes - p) div 11 \<le> k" by simp
      ultimately show ?thesis
      proof (cases "length bytes \<le> p + length sl")
        case True
        then show ?thesis by simp
      next
        case False
        define x where "x = length bytes - p"
        define y where "y = length bytes - (p + length sl)"
        from False \<open>11 \<le> length sl\<close> have "y + 11 \<le> x" by (simp add: x_def y_def)
        then have "(y + 11) div 11 \<le> x div 11" by (rule div_le_mono)
        then have "y div 11 + 1 \<le> x div 11" by simp
        with \<open>(length bytes - p) div 11 \<le> k\<close> show ?thesis
          by (simp add: x_def y_def)
      qed
    next
      case False
      with len(1) have "length sl = length bytes - p" by simp
      then have "length bytes \<le> p + length sl" by linarith
      then show ?thesis ..
    qed
    show ?thesis
    proof (cases "store_frame D tags (parseFrame D sl v n)")
      case (Inl e)
      with nf show ?thesis by (simp add: parseV2Frames_loop.simps [of D bytes v p])
    next
      case (Inr tags')
      with nf Suc.IH [OF next_ok, of tags'] show ?thesis
        by (simp add: parseV2Frames_loop.simps [of D bytes v p])
    qed
  qed
qed

text \<open>
  C5. The loop over a body of \<open>N\<close> bytes ends after at most \<open>N div 11 + 1\<close> executions of
  its body: with that budget the budgeted loop returns, and returns what the loop
  returns. A size field of 0 (or a cursor at the end) ends the iteration at once, and a
  turn with a nonzero size goes on from the cursor advanced by the length of the slice
  it processed.
\<close>

theorem parseV2Frames_steps:
  "parseV2Frames_fuel (length bytes div 11 + 1) D bytes vminor 0 tags =
     Some (parseV2Frames D bytes vminor tags) \<and>
   next_frame bytes position =
     (if position < length bytes \<and> calcFrameSize (drop (position + 4) bytes) \<noteq> 0
      then Some (take (10 + calcFrameSize (drop (position + 4) bytes)) (drop position bytes),
                 calcFrameSize (drop (position + 4) bytes))
      else None) \<and>
   parseV2Frames_loop D bytes vminor position tags =
     (case next_frame bytes position of
        None \<Rightarrow> Inr tags
      | Some (sl, fsize) \<Rightarrow>
          (case store_frame D tags (parseFrame D sl vminor fsize) of
             Inl e \<Rightarrow> Inl e
           | Inr tags' \<Rightarrow> parseV2Frames_loop D bytes vminor (position + length sl) tags'))"
proof -
  have "parseV2Frames_fuel (length bytes div 11 + 1) D bytes vminor 0 tags =
     Some (parseV2Frames D bytes vminor tags)"
    using fuel_enough [of bytes 0 "length bytes div 11 + 1" D vminor tags]
    by (simp add: parseV2Frames_def)
  then show ?thesis
    using next_frame_alt [of bytes position]
      parseV2Frames_loop.simps [of D bytes vminor position tags]
    by blast
qed

lemma frame_slices_nth:
  "i < length (frame_slices bytes q) \<Longrightarrow> frame_slices bytes q ! i = (sl, n) \<Longrightarrow>
   \<exists>p. next_frame bytes p = Some (sl, n) \<and>
       (length sl = 10 + n \<or> Suc i = length (frame_slices bytes q))"
proof (induction i arbitrary: q)
  case 0
  show ?case
  proof (cases "next_frame bytes q")
    case None
    with 0 show ?thesis by (simp add: frame_slices_None)
  next
    case (Some a)
    obtain sl0 n0 where a: "a = (sl0, n0)" by (cases a)
    from Some a have nf: "next_frame bytes q = Some (sl0, n0)" by simp
    with 0 have eq: "sl0 = sl" "n0 = n" by (simp_all add: frame_slices_Some)
    note len = next_frame_length [OF nf]
    have "length sl0 = 10 + n0 \<or> frame_slices bytes (q + length sl0) = []"
    proof (cases "length sl0 = 10 + n0")
      case False
      with len(1) have "length bytes \<le> q + length sl0" by linarith
      then have "next_frame bytes (q + length sl0) = None" by (simp add: next_frame_None_iff)
      then show ?thesis by (simp add: frame_slices_None)
    qed simp
    with nf eq show ?thesis by (auto simp: frame_slices_Some)
  qed
next
  case (Suc i)
  show ?case
  proof (cases "next_frame bytes q")
    case None
    with Suc.prems show ?thesis by (simp add: frame_slices_None)
  next
    case (Some a)
    obtain sl0 n0 where a: "a = (sl0, n0)" by (cases a)
    from Some a have nf: "next_frame bytes q = Some (sl0, n0)" by simp
    from Suc.prems nf have "i < length (frame_slices bytes (q + length sl0))"
      and "frame_slices bytes (q + length sl0) ! i = (sl, n)"
      by (simp_all add: frame_slices_Some)
    from Suc.IH [OF this] nf show ?thesis by (simp add: frame_slices_Some)
  qed
qed

lemma truncated_slices: "frame_slices truncated_body 0 = [(truncated_body, 100)]"
proof -
  have nf: "next_frame truncated_body 0 = Some (truncated_body, 100)"
    by (simp add: next_frame_alt truncated_body_def frame_def ascii_def calcFrameSize_def)
  have "next_frame truncated_body (0 + length truncated_body) = None"
    by (simp add: next_frame_None_iff)
  then show ?thesis
    using frame_slices_Some [OF nf] by (simp add: frame_slices_None)
qed

lemma truncated_parse:
  "parseFrame spec_deps truncated_body v 100 =
     \<lparr>frame_id = js ''TIT2'', frame_tag = Some (js ''title''), frame_value = Str (js ''Hi'')\<rparr>"
  by (simp add: parseFrame_def truncated_body_def frame_def ascii_def spec_deps_def
      spec_readBytesToUTF8_def limit_bytes_def byte_at_def spec_frameTypes_def js_def Let_def
      frame_content_def spec_readBytesToString_def spec_readBytesToISO8859_def)

lemma truncated_frames:
  "parseV2Frames spec_deps truncated_body v tags = Inr (tags(js ''title'' \<mapsto> Str (js ''Hi'')))"
  by (simp add: parseV2Frames_def loop_as_fold decoded_frames_def truncated_slices
      truncated_parse store_frame_def)
    (simp add: spec_deps_def spec_FrameTypeValueMap_def js_def)

lemma frame_slices_cursor:
  "i < length (frame_slices bytes q) \<Longrightarrow>
   next_frame bytes (q + sum_list (map (\<lambda>(s, n). length s) (take i (frame_slices bytes q)))) =
     Some (frame_slices bytes q ! i)"
proof (induction i arbitrary: q)
  case 0
  show ?case
  proof (cases "next_frame bytes q")
    case None
    with 0 show ?thesis by (simp add: frame_slices_None)
  next
    case (Some a)
    obtain sl0 n0 where a: "a = (sl0, n0)" by (cases a)
    with Some have nf: "next_frame bytes q = Some (sl0, n0)" by simp
    then show ?thesis by (simp add: frame_slices_Some)
  qed
next
  case (Suc i)
  show ?case
  proof (cases "next_frame bytes q")
    case None
    with Suc.prems show ?thesis by (simp add: frame_slices_None)
  next
    case (Some a)
    obtain sl0 n0 where a: "a = (sl0, n0)" by (cases a)
    with Some have nf: "next_frame bytes q = Some (sl0, n0)" by simp
    from Suc.prems nf have "i < length (frame_slices bytes (q + length sl0))"
      by (simp add: frame_slices_Some)
    from Suc.IH [OF this] nf show ?thesis
      by (simp add: frame_slices_Some add.assoc)
  qed
qed

lemma frame_slices_last:
  assumes "i < length (frame_slices bytes q)" and "frame_slices bytes q ! i = (sl, n)"
  shows "length sl = 10 + n \<or> Suc i = length (frame_slices bytes q)"
  using frame_slices_nth [OF assms] by blast

lemma loop_truncated:
  assumes nf: "next_frame bytes p = Some (sl, n)" and short: "length bytes - p < 10 + n"
  shows "p + length sl = length bytes"
    and "parseV2Frames_loop D bytes v p tags = store_frame D tags (parseFrame D sl v n)"
    and "frame_slices bytes p = [(sl, n)]"
proof -
  note len = next_frame_length [OF nf]
  from len(1) short have "length sl = length bytes - p" by simp
  with len(4) show e: "p + length sl = length bytes" by linarith
  then have none: "next_frame bytes (p + length sl) = None" by (simp add: next_frame_None_iff)
  from none have stop: "parseV2Frames_loop D bytes v (p + length sl) t = Inr t" for t
    by (simp add: parseV2Frames_loop.simps [of D bytes v "p + length sl"])
  show "parseV2Frames_loop D bytes v p tags = store_frame D tags (parseFrame D sl v n)"
    using nf stop
    by (cases "store_frame D tags (parseFrame D sl v n)")
      (simp_all add: parseV2Frames_loop.simps [of D bytes v p])
  show "frame_slices bytes p = [(sl, n)]"
    using frame_slices_Some [OF nf] frame_slices_None [OF none] by simp
qed

text \<open>
  C1, as the code has it. At a cursor before the end of the body where the size field is
  not 0, the part of the body from the cursor, at most 10 + size bytes of it, is handed
  to \<^verbatim>\<open>parseFrame\<close> and its result is stored, whether the slice is complete or not: its
  length is the smaller of 10 + size and the number of bytes left, at least 8. When fewer
  than 10 + size bytes are left the slice is shorter than 10 + size; it is decoded and
  stored all the same, it is the last one, and the loop returns what storing it gives.
  The slices handed over from the start are those of \<open>frame_slices\<close>: the one with
  index \<open>i\<close> is taken at the cursor that the lengths of the slices before it add up to,
  and only the last one can be shorter than 10 + size.
\<close>

theorem frame_slices_length:
  assumes "position < length bytes"
    and "fsize = calcFrameSize (slice_from bytes (int (position + 4)))"
    and "fsize \<noteq> 0"
    and "sl = slice bytes (int position) (int (position + 10 + fsize))"
  shows "next_frame bytes position = Some (sl, fsize) \<and>
         length sl = min (10 + fsize) (length bytes - position) \<and> 8 \<le> length sl \<and>
         parseV2Frames_loop D bytes vminor position tags =
           (case store_frame D tags (parseFrame D sl vminor fsize) of
              Inl e \<Rightarrow> Inl e
            | Inr tags' \<Rightarrow> parseV2Frames_loop D bytes vminor (position + length sl) tags') \<and>
         (length bytes - position < 10 + fsize \<longrightarrow>
            length sl < 10 + fsize \<and> position + length sl = length bytes \<and>
            frame_slices bytes position = [(sl, fsize)] \<and>
            parseV2Frames_loop D bytes vminor position tags =
              store_frame D tags (parseFrame D sl vminor fsize)) \<and>
         parseV2Frames D bytes vminor tags =
           store_frames D tags
             (map (\<lambda>(s, n). parseFrame D s vminor n) (frame_slices bytes 0)) \<and>
         (\<forall>i<length (frame_slices bytes 0).
            next_frame bytes (sum_list (map (\<lambda>(s, n). length s) (take i (frame_slices bytes 0)))) =
              Some (frame_slices bytes 0 ! i) \<and>
            (length (fst (frame_slices bytes 0 ! i)) = 10 + snd (frame_slices bytes 0 ! i) \<or>
             Suc i = length (frame_slices bytes 0)))"
proof -
  have sl: "sl = take (10 + fsize) (drop position bytes)"
    and n: "fsize = calcFrameSize (drop (position + 4) bytes)"
    using assms(2,4) unfolding slice_from_int slice_int by simp_all
  with assms(1,3) have nf: "next_frame bytes position = Some (sl, fsize)"
    by (simp add: next_frame_Some_iff)
  note len = next_frame_length [OF nf]
  have step: "parseV2Frames_loop D bytes vminor position tags =
           (case store_frame D tags (parseFrame D sl vminor fsize) of
              Inl e \<Rightarrow> Inl e
            | Inr tags' \<Rightarrow> parseV2Frames_loop D bytes vminor (position + length sl) tags')"
    using nf by (simp add: parseV2Frames_loop.simps [of D bytes vminor position])
  have trunc: "length bytes - position < 10 + fsize \<longrightarrow>
            length sl < 10 + fsize \<and> position + length sl = length bytes \<and>
            frame_slices bytes position = [(sl, fsize)] \<and>
            parseV2Frames_loop D bytes vminor position tags =
              store_frame D tags (parseFrame D sl vminor fsize)"
  proof
    assume short: "length bytes - position < 10 + fsize"
    with len(1) have "length sl < 10 + fsize" by simp
    with loop_truncated(1) [OF nf short] loop_truncated(3) [OF nf short]
      loop_truncated(2) [OF nf short, of D vminor tags]
    show "length sl < 10 + fsize \<and> position + length sl = length bytes \<and>
            frame_slices bytes position = [(sl, fsize)] \<and>
            parseV2Frames_loop D bytes vminor position tags =
              store_frame D tags (parseFrame D sl vminor fsize)" by blast
  qed
  have fold: "parseV2Frames D bytes vminor tags =
           store_frames D tags
             (map (\<lambda>(s, n). parseFrame D s vminor n) (frame_slices bytes 0))"
    by (simp add: parseV2Frames_def loop_as_fold decoded_frames_def)
  have every: "\<forall>i<length (frame_slices bytes 0).
            next_frame bytes (sum_list (map (\<lambda>(s, n). length s) (take i (frame_slices bytes 0)))) =
              Some (frame_slices bytes 0 ! i) \<and>
            (length (fst (frame_slices bytes 0 ! i)) = 10 + snd (frame_slices bytes 0 ! i) \<or>
             Suc i = length (frame_slices bytes 0))"
  proof (intro allI impI conjI)
    fix i assume i: "i < length (frame_slices bytes 0)"
    from frame_slices_cursor [OF i]
    show "next_frame bytes (sum_list (map (\<lambda>(s, n). length s) (take i (frame_slices bytes 0)))) =
              Some (frame_slices bytes 0 ! i)" by simp
    obtain s n where sn: "frame_slices bytes 0 ! i = (s, n)" by (cases "frame_slices bytes 0 ! i")
    from frame_slices_last [OF i sn] sn
    show "length (fst (frame_slices bytes 0 ! i)) = 10 + snd (frame_slices bytes 0 ! i) \<or>
             Suc i = length (frame_slices bytes 0)" by simp
  qed
  from nf len(1,2) step trunc fold every show ?thesis by blast
qed

theorem frame_slices_length_witness:
  "(0 :: nat) < length truncated_body \<and>
   100 = calcFrameSize (slice_from truncated_body (int (0 + 4))) \<and> (100 :: nat) \<noteq> 0 \<and>
   truncated_body = slice truncated_body (int 0) (int (0 + 10 + 100)) \<and>
   length truncated_body - 0 < 10 + 100 \<and>
   next_frame truncated_body 0 = Some (truncated_body, 100) \<and>
   length truncated_body = 13 \<and>
   frame_slices truncated_body 0 = [(truncated_body, 100)] \<and>
   0 < length (frame_slices truncated_body 0) \<and>
   Suc 0 = length (frame_slices truncated_body 0) \<and>
   parseV2Frames_loop spec_deps truncated_body 3 0 Map.empty =
     Inr [js ''title'' \<mapsto> Str (js ''Hi'')]"
proof -
  have len: "length truncated_body = 13"
    by (simp add: truncated_body_def frame_def ascii_def)
  have a: "0 < length truncated_body" using len by simp
  have b: "100 = calcFrameSize (slice_from truncated_body (int (0 + 4)))"
    by (simp add: truncated_body_def frame_def ascii_def calcFrameSize_def)
  have c: "(100 :: nat) \<noteq> 0" by simp
  have d: "truncated_body = slice truncated_body (int 0) (int (0 + 10 + 100))"
    unfolding slice_int using len by simp
  have e: "length truncated_body - 0 < 10 + 100" using len by simp
  have s: "store_frame spec_deps Map.empty (parseFrame spec_deps truncated_body 3 100) =
      Inr [js ''title'' \<mapsto> Str (js ''Hi'')]"
    by (simp add: truncated_parse store_frame_def)
      (simp add: spec_deps_def spec_FrameTypeValueMap_def js_def)
  note t = frame_slices_length [OF a b c d, of spec_deps 3 Map.empty]
  from t e have "next_frame truncated_body 0 = Some (truncated_body, 100) \<and>
      frame_slices truncated_body 0 = [(truncated_body, 100)] \<and>
      parseV2Frames_loop spec_deps truncated_body 3 0 Map.empty =
        store_frame spec_deps Map.empty (parseFrame spec_deps truncated_body 3 100)"
    by blast
  then have r: "next_frame truncated_body 0 = Some (truncated_body, 100) \<and>
      frame_slices truncated_body 0 = [(truncated_body, 100)] \<and>
      parseV2Frames_loop spec_deps truncated_body 3 0 Map.empty =
        Inr [js ''title'' \<mapsto> Str (js ''Hi'')]"
    unfolding s .
  from r have n: "0 < length (frame_slices truncated_body 0) \<and>
      Suc 0 = length (frame_slices truncated_body 0)"
    by simp
  from a b c d e len r n show ?thesis by blast
qed

text \<open>
  The claim as stated fails on a body whose only frame declares 100 bytes of payload and
  holds 3: the slice of 13 bytes is handed to \<^verbatim>\<open>parseFrame\<close>, and the title decoded
  from it is in the result.
\<close>

theorem truncated_frame_decoded:
  "frame_slices truncated_body 0 = [(truncated_body, 100)] \<and>
   length truncated_body = 13 \<and>
   parseV2Data spec_deps (Some truncated_tag) =
     Inr (Some [js ''version'' \<mapsto>
                  version_obj \<lparr>version_major = 2, version_minor = 3, version_revision = 0,
                    version_flags = \<lparr>flag_unsync = False, flag_xheader = False,
                      flag_experimental = False\<rparr>\<rparr>,
                js ''title'' \<mapsto> Str (js ''Hi'')])"
proof -
  have len: "length truncated_body = 13"
    by (simp add: truncated_body_def frame_def ascii_def)
  have hdr: "parseV2Header spec_deps (Some (take 10 truncated_tag)) =
      Some \<lparr>version_major = 2, version_minor = 3, version_revision = 0,
                    version_flags = \<lparr>flag_unsync = False, flag_xheader = False,
                      flag_experimental = False\<rparr>\<rparr>"
    by (simp add: parseV2Header_def truncated_tag_def tag_header_def ascii_def spec_deps_def
        spec_readBytesToUTF8_def limit_bytes_def js_def)
  have size: "calcTagSize (take 4 (drop 6 truncated_tag)) = 13"
    by (simp add: truncated_tag_def tag_header_def ascii_def calcTagSize_def low7_def byte_at_def)
  have body: "take 13 (drop 10 truncated_tag) = truncated_body"
    using len by (simp add: truncated_tag_def tag_header_def ascii_def)
  have "parseV2Data spec_deps (Some truncated_tag) =
     Inr (Some [js ''version'' \<mapsto>
                  version_obj \<lparr>version_major = 2, version_minor = 3, version_revision = 0,
                    version_flags = \<lparr>flag_unsync = False, flag_xheader = False,
                      flag_experimental = False\<rparr>\<rparr>,
                js ''title'' \<mapsto> Str (js ''Hi'')])"
    using len by (simp add: parseV2Data_def V2_MIN_LENGTH_def hdr size body truncated_frames)
      (simp add: truncated_tag_def tag_header_def ascii_def)
  with len truncated_slices show ?thesis by simp
qed

subsection \<open>Skipped frames\<close>

lemma calcFrameSize_append:
  assumes "4 \<le> length xs"
  shows "calcFrameSize (xs @ ys) = calcFrameSize xs"
proof -
  from assms have "(xs @ ys) ! 0 = xs ! 0" "(xs @ ys) ! 1 = xs ! 1"
    "(xs @ ys) ! 2 = xs ! 2" "(xs @ ys) ! 3 = xs ! 3"
    by (auto simp: nth_append)
  with assms show ?thesis by (simp add: calcFrameSize_def)
qed

lemma parseFrame_flagged:
  assumes "byte_at fr 9 \<noteq> Some 0"
  shows "parseFrame D fr v n =
           \<lparr>frame_id = readBytesToUTF8 D fr (Some 4), frame_tag = None, frame_value = Null\<rparr>"
  using assms by (simp add: parseFrame_def Let_def)

lemma store_frame_no_tag: "frame_tag f = None \<Longrightarrow> store_frame D tags f = Inr tags"
  by (simp add: store_frame_def)

lemma loop_skip_frame:
  assumes complete: "length fr = 10 + calcFrameSize (drop 4 fr)"
    and nonzero: "calcFrameSize (drop 4 fr) \<noteq> 0"
    and skip: "store_frame D tags (parseFrame D fr v (calcFrameSize (drop 4 fr))) = Inr tags"
  shows "parseV2Frames_loop D (fr @ rest) v 0 tags = parseV2Frames_loop D rest v 0 tags"
proof -
  define n where "n = calcFrameSize (drop 4 fr)"
  have len: "length fr = 10 + n" and n0: "n \<noteq> 0"
    and st: "store_frame D tags (parseFrame D fr v n) = Inr tags"
    using complete nonzero skip unfolding n_def by blast+
  from len have "4 \<le> length (drop 4 fr)" by simp
  then have "calcFrameSize (drop 4 fr @ rest) = n"
    unfolding n_def by (rule calcFrameSize_append)
  moreover from len have "drop 4 (fr @ rest) = drop 4 fr @ rest" by simp
  ultimately have size: "calcFrameSize (drop (0 + 4) (fr @ rest)) = n" by simp
  from len have tk: "take (10 + n) (drop 0 (fr @ rest)) = fr" by simp
  from len have pos: "0 < length (fr @ rest)" by simp
  have nf: "next_frame (fr @ rest) 0 = Some (fr, n)"
    unfolding next_frame_Some_iff using pos size [symmetric] n0 tk [symmetric] by blast
  have "parseV2Frames_loop D (fr @ rest) v 0 tags =
        parseV2Frames_loop D (fr @ rest) v (0 + length fr) tags"
    using nf st by (simp add: parseV2Frames_loop.simps [of D "fr @ rest" v 0])
  also have "\<dots> = parseV2Frames_loop D rest v 0 tags"
    using loop_drop [of D "fr @ rest" v "length fr" tags] by simp
  finally show ?thesis .
qed

lemma album_parse:
  "parseFrame spec_deps album_frame v 3 =
     \<lparr>frame_id = js ''TALB'', frame_tag = Some (js ''album''), frame_value = Str (js ''Lp'')\<rparr>"
  by (simp add: parseFrame_def album_frame_def frame_def ascii_def spec_deps_def
      spec_readBytesToUTF8_def limit_bytes_def byte_at_def spec_frameTypes_def js_def Let_def
      frame_content_def spec_readBytesToString_def spec_readBytesToISO8859_def)

lemma album_slices: "frame_slices album_frame 0 = [(album_frame, 3)]"
proof -
  have nf: "next_frame album_frame 0 = Some (album_frame, 3)"
    by (simp add: next_frame_alt album_frame_def frame_def ascii_def calcFrameSize_def)
  have "next_frame album_frame (0 + length album_frame) = None"
    by (simp add: next_frame_None_iff)
  then show ?thesis
    using frame_slices_Some [OF nf] by (simp add: frame_slices_None)
qed

lemma album_frames:
  "parseV2Frames_loop spec_deps album_frame v 0 tags = Inr (tags(js ''album'' \<mapsto> Str (js ''Lp'')))"
  by (simp add: loop_as_fold decoded_frames_def album_slices album_parse store_frame_def)
    (simp add: spec_deps_def spec_FrameTypeValueMap_def js_def)

text \<open>
  C9. A frame whose second flag byte (byte 9 of the frame) is not 0 gets no semantic tag
  and no value, and storing its result leaves the tag object as it was. When the frame
  is complete (10 bytes and its declared, nonzero size), the loop goes on behind it
  exactly as on the body without that frame: whatever follows is decoded as if the
  skipped frame had been absent.
\<close>

theorem flagged_frame_skipped:
  assumes "length fr = 10 + calcFrameSize (slice_from fr 4)"
    and "calcFrameSize (slice_from fr 4) \<noteq> 0"
    and "byte_at fr 9 \<noteq> Some 0"
  shows "frame_tag (parseFrame D fr vminor fsize) = None \<and>
         frame_value (parseFrame D fr vminor fsize) = Null \<and>
         store_frame D tags (parseFrame D fr vminor fsize) = Inr tags \<and>
         parseV2Frames_loop D (pre @ fr @ rest) vminor (length pre) tags =
           parseV2Frames_loop D (pre @ rest) vminor (length pre) tags"
proof -
  have p: "parseFrame D fr vminor k =
      \<lparr>frame_id = readBytesToUTF8 D fr (Some 4), frame_tag = None, frame_value = Null\<rparr>" for k
    using assms(3) by (rule parseFrame_flagged)
  then have s: "store_frame D tags (parseFrame D fr vminor k) = Inr tags" for k
    by (simp add: store_frame_no_tag)
  have c: "length fr = 10 + calcFrameSize (drop 4 fr)"
    using assms(1) unfolding slice_from_numeral .
  have z: "calcFrameSize (drop 4 fr) \<noteq> 0"
    using assms(2) unfolding slice_from_numeral .
  have "parseV2Frames_loop D (fr @ rest) vminor 0 tags =
      parseV2Frames_loop D rest vminor 0 tags"
    by (rule loop_skip_frame [OF c z s])
  then have "parseV2Frames_loop D (pre @ fr @ rest) vminor (length pre) tags =
           parseV2Frames_loop D (pre @ rest) vminor (length pre) tags"
    using loop_drop [of D "pre @ fr @ rest" vminor "length pre" tags]
      loop_drop [of D "pre @ rest" vminor "length pre" tags] by simp
  with p s show ?thesis by simp
qed

theorem flagged_frame_skipped_witness:
  "length flagged_frame = 10 + calcFrameSize (slice_from flagged_frame 4) \<and>
   calcFrameSize (slice_from flagged_frame 4) \<noteq> 0 \<and>
   byte_at flagged_frame 9 \<noteq> Some 0 \<and>
   frame_tag (parseFrame spec_deps flagged_frame 3 3) = None \<and>
   parseV2Frames_loop spec_deps ([] @ flagged_frame @ album_frame) 3 (length ([] :: bytes)) Map.empty =
     Inr [js ''album'' \<mapsto> Str (js ''Lp'')]"
proof -
  have a: "length flagged_frame = 10 + calcFrameSize (slice_from flagged_frame 4)"
    by (simp add: flagged_frame_def ascii_def calcFrameSize_def)
  have b: "calcFrameSize (slice_from flagged_frame 4) \<noteq> 0"
    by (simp add: flagged_frame_def ascii_def calcFrameSize_def)
  have c: "byte_at flagged_frame 9 \<noteq> Some 0"
    by (simp add: flagged_frame_def ascii_def byte_at_def)
  note t = flagged_frame_skipped [OF a b c, of spec_deps 3 3 Map.empty "[]" album_frame]
  from t have "parseV2Frames_loop spec_deps ([] @ flagged_frame @ album_frame) 3
      (length ([] :: bytes)) Map.empty = Inr [js ''album'' \<mapsto> Str (js ''Lp'')]"
    by (simp add: album_frames)
  with t a b c show ?thesis by blast
qed

subsection \<open>Storing the decoded frames\<close>

lemma store_frame_other:
  "store_frame D tags f = Inr tags1 \<Longrightarrow> frame_tag f \<noteq> Some t \<Longrightarrow> tags1 t = tags t"
  by (auto simp: store_frame_def split: option.splits if_splits jsval.splits)

lemma store_frame_array_push:
  assumes "store_frame D tags f = Inr tags1" "frame_tag f = Some t" "t \<noteq> []"
    and "FrameTypeValueMap D (frame_id f) = Some (js ''array'')" and "tags t = Some (Arr xs)"
  shows "tags1 t = Some (Arr (xs @ [frame_value f]))"
  using assms by (auto simp: store_frame_def)

lemma store_frame_array_new:
  assumes "store_frame D tags f = Inr tags1" "frame_tag f = Some t" "t \<noteq> []"
    and "FrameTypeValueMap D (frame_id f) = Some (js ''array'')" and "tags t = None"
  shows "tags1 t = Some (Arr [frame_value f])"
  using assms by (auto simp: store_frame_def)

lemma store_frame_overwrite:
  assumes "store_frame D tags f = Inr tags1" "frame_tag f = Some t" "t \<noteq> []"
    and "FrameTypeValueMap D (frame_id f) \<noteq> Some (js ''array'')"
  shows "tags1 t = Some (frame_value f)"
  using assms by (auto simp: store_frame_def)

lemma store_frames_array_acc:
  assumes "store_frames D tags0 fs = Inr tags'" and "t \<noteq> []"
    and "\<forall>f\<in>set fs. frame_tag f = Some t \<longrightarrow>
           FrameTypeValueMap D (frame_id f) = Some (js ''array'')"
    and "tags0 t = Some (Arr xs)"
  shows "tags' t = Some (Arr (xs @ map frame_value (filter (\<lambda>f. frame_tag f = Some t) fs)))"
  using assms
proof (induction fs arbitrary: tags0 xs)
  case Nil
  then show ?case by simp
next
  case (Cons f fs)
  from Cons.prems(1) obtain tags1 where s1: "store_frame D tags0 f = Inr tags1"
    and rest: "store_frames D tags1 fs = Inr tags'"
    by (auto split: sum.splits)
  from Cons.prems(3) have all: "\<forall>f\<in>set fs. frame_tag f = Some t \<longrightarrow>
           FrameTypeValueMap D (frame_id f) = Some (js ''array'')" by simp
  show ?case
  proof (cases "frame_tag f = Some t")
    case True
    with Cons.prems have "tags1 t = Some (Arr (xs @ [frame_value f]))"
      using store_frame_array_push [OF s1] by simp
    from Cons.IH [OF rest Cons.prems(2) all this] True show ?thesis by simp
  next
    case False
    with s1 Cons.prems(4) have "tags1 t = Some (Arr xs)"
      using store_frame_other by metis
    from Cons.IH [OF rest Cons.prems(2) all this] False show ?thesis by simp
  qed
qed

lemma store_frames_array_first:
  assumes "store_frames D tags0 fs = Inr tags'" and "t \<noteq> []"
    and "\<forall>f\<in>set fs. frame_tag f = Some t \<longrightarrow>
           FrameTypeValueMap D (frame_id f) = Some (js ''array'')"
    and "tags0 t = None"
  shows "tags' t =
           (if filter (\<lambda>f. frame_tag f = Some t) fs = [] then None
            else Some (Arr (map frame_value (filter (\<lambda>f. frame_tag f = Some t) fs))))"
  using assms
proof (induction fs arbitrary: tags0)
  case Nil
  then show ?case by simp
next
  case (Cons f fs)
  from Cons.prems(1) obtain tags1 where s1: "store_frame D tags0 f = Inr tags1"
    and rest: "store_frames D tags1 fs = Inr tags'"
    by (auto split: sum.splits)
  from Cons.prems(3) have all: "\<forall>f\<in>set fs. frame_tag f = Some t \<longrightarrow>
           FrameTypeValueMap D (frame_id f) = Some (js ''array'')" by simp
  show ?case
  proof (cases "frame_tag f = Some t")
    case True
    with Cons.prems have "tags1 t = Some (Arr ([] @ [frame_value f]))"
      using store_frame_array_new [OF s1] by simp
    from store_frames_array_acc [OF rest Cons.prems(2) all this] True show ?thesis by simp
  next
    case False
    with s1 Cons.prems(4) have "tags1 t = None"
      using store_frame_other by metis
    from Cons.IH [OF rest Cons.prems(2) all this] False show ?thesis by simp
  qed
qed

lemma store_frames_single:
  assumes "store_frames D tags0 fs = Inr tags'" and "t \<noteq> []"
    and "\<forall>f\<in>set fs. frame_tag f = Some t \<longrightarrow>
           FrameTypeValueMap D (frame_id f) \<noteq> Some (js ''array'')"
  shows "tags' t =
           (if filter (\<lambda>f. frame_tag f = Some t) fs = [] then tags0 t
            else Some (frame_value (last (filter (\<lambda>f. frame_tag f = Some t) fs))))"
  using assms
proof (induction fs arbitrary: tags0)
  case Nil
  then show ?case by simp
next
  case (Cons f fs)
  from Cons.prems(1) obtain tags1 where s1: "store_frame D tags0 f = Inr tags1"
    and rest: "store_frames D tags1 fs = Inr tags'"
    by (auto split: sum.splits)
  from Cons.prems(3) have all: "\<forall>f\<in>set fs. frame_tag f = Some t \<longrightarrow>
           FrameTypeValueMap D (frame_id f) \<noteq> Some (js ''array'')" by simp
  note ih = Cons.IH [OF rest Cons.prems(2) all]
  show ?case
  proof (cases "frame_tag f = Some t")
    case True
    with Cons.prems have "tags1 t = Some (frame_value f)"
      using store_frame_overwrite [OF s1] by simp
    with ih True show ?thesis by simp
  next
    case False
    with s1 have "tags1 t = tags0 t"
      using store_frame_other by metis
    with ih False show ?thesis by simp
  qed
qed

subsection \<open>Sample frames, decoded\<close>

lemmas spec_eval =
  spec_deps_def spec_readBytesToUTF8_def spec_readBytesToISO8859_def spec_readBytesToString_def
  spec_getEndpointOfBytes_def spec_skipPaddingZeros_def limit_bytes_def spec_frameTypes_def
  spec_FrameTypeValueMap_def

lemmas frame_eval =
  parseFrame_def frame_content_def frame_def ascii_def js_def byte_at_def Let_def

lemma comment_eng_parse:
  "parseFrame spec_deps comment_eng v n =
     \<lparr>frame_id = js ''COMM'', frame_tag = Some (js ''comments''),
      frame_value = comment_eng_value\<rparr>"
  by (simp add: comment_eng_def comment_eng_value_def parseFrame_COMM_def str_or_null_def
      frame_eval spec_eval)

lemma comment_deu_parse:
  "parseFrame spec_deps comment_deu v n =
     \<lparr>frame_id = js ''COMM'', frame_tag = Some (js ''comments''),
      frame_value = comment_deu_value\<rparr>"
  by (simp add: comment_deu_def comment_deu_value_def parseFrame_COMM_def str_or_null_def
      frame_eval spec_eval)

lemma title_hi_parse:
  "parseFrame spec_deps title_hi v n =
     \<lparr>frame_id = js ''TIT2'', frame_tag = Some (js ''title''), frame_value = Str (js ''Hi'')\<rparr>"
  by (simp add: title_hi_def frame_eval spec_eval)

lemma title_yo_parse:
  "parseFrame spec_deps title_yo v n =
     \<lparr>frame_id = js ''TIT2'', frame_tag = Some (js ''title''), frame_value = Str (js ''Yo'')\<rparr>"
  by (simp add: title_yo_def frame_eval spec_eval)

lemma two_frames_slices:
  assumes "length a = 10 + n" "length b = 10 + m" "n \<noteq> 0" "m \<noteq> 0"
    and "calcFrameSize (drop 4 a) = n" "calcFrameSize (drop 4 b) = m"
  shows "frame_slices (a @ b) 0 = [(a, n), (b, m)]"
proof -
  from assms(1) have "4 \<le> length (drop 4 a)" by simp
  then have "calcFrameSize (drop 4 a @ b) = n"
    using assms(5) calcFrameSize_append by metis
  moreover from assms(1) have "drop 4 (a @ b) = drop 4 a @ b" by simp
  ultimately have "calcFrameSize (drop (0 + 4) (a @ b)) = n" by simp
  moreover from assms(1) have "take (10 + n) (drop 0 (a @ b)) = a" by simp
  moreover from assms(1) have "0 < length (a @ b)" by simp
  ultimately have nf1: "next_frame (a @ b) 0 = Some (a, n)"
    unfolding next_frame_Some_iff using assms(3) by metis
  from assms(1,2) have "drop (length a + 4) (a @ b) = drop 4 b" by simp
  then have "calcFrameSize (drop (length a + 4) (a @ b)) = m" using assms(6) by simp
  moreover from assms(2) have "take (10 + m) (drop (length a) (a @ b)) = b" by simp
  moreover from assms(2) have "length a < length (a @ b)" by simp
  ultimately have nf2: "next_frame (a @ b) (length a) = Some (b, m)"
    unfolding next_frame_Some_iff using assms(4) by metis
  have nf3: "next_frame (a @ b) (length a + length b) = None"
    by (simp add: next_frame_None_iff)
  from frame_slices_Some [OF nf1] frame_slices_Some [OF nf2] frame_slices_None [OF nf3]
  show ?thesis by simp
qed

lemma comments_slices:
  "frame_slices (comment_eng @ comment_deu) 0 = [(comment_eng, 6), (comment_deu, 6)]"
  by (rule two_frames_slices)
    (simp_all add: comment_eng_def comment_deu_def frame_def ascii_def calcFrameSize_def)

lemma titles_slices:
  "frame_slices (title_hi @ title_yo) 0 = [(title_hi, 3), (title_yo, 3)]"
  by (rule two_frames_slices)
    (simp_all add: title_hi_def title_yo_def frame_def ascii_def calcFrameSize_def)

lemma comments_decoded:
  "decoded_frames spec_deps 3 (comment_eng @ comment_deu) 0 =
     [\<lparr>frame_id = js ''COMM'', frame_tag = Some (js ''comments''),
        frame_value = comment_eng_value\<rparr>,
      \<lparr>frame_id = js ''COMM'', frame_tag = Some (js ''comments''),
        frame_value = comment_deu_value\<rparr>]"
  by (simp add: decoded_frames_def comments_slices comment_eng_parse comment_deu_parse)

lemma titles_decoded:
  "decoded_frames spec_deps 3 (title_hi @ title_yo) 0 =
     [\<lparr>frame_id = js ''TIT2'', frame_tag = Some (js ''title''), frame_value = Str (js ''Hi'')\<rparr>,
      \<lparr>frame_id = js ''TIT2'', frame_tag = Some (js ''title''), frame_value = Str (js ''Yo'')\<rparr>]"
  by (simp add: decoded_frames_def titles_slices title_hi_parse title_yo_parse)

lemma comments_class: "FrameTypeValueMap spec_deps (js ''COMM'') = Some (js ''array'')"
  by (simp add: spec_deps_def spec_FrameTypeValueMap_def js_def)

lemma title_class: "FrameTypeValueMap spec_deps (js ''TIT2'') \<noteq> Some (js ''array'')"
  by (simp add: spec_deps_def spec_FrameTypeValueMap_def js_def)

lemma comments_tag_nonempty: "js ''comments'' \<noteq> []" and title_tag_nonempty: "js ''title'' \<noteq> []"
  by (simp_all add: js_def)

lemma comments_stored:
  "parseV2Frames spec_deps (comment_eng @ comment_deu) 3 Map.empty =
     Inr [js ''comments'' \<mapsto> Arr [comment_eng_value, comment_deu_value]]"
  by (simp add: parseV2Frames_def loop_as_fold comments_decoded store_frame_def comments_class
      comments_tag_nonempty)

lemma titles_stored:
  "parseV2Frames spec_deps (title_hi @ title_yo) 3 Map.empty =
     Inr [js ''title'' \<mapsto> Str (js ''Yo'')]"
  by (simp add: parseV2Frames_def loop_as_fold titles_decoded store_frame_def title_class
      title_tag_nonempty)

text \<open>
  C8. \<^verbatim>\<open>parseV2Frames\<close> stores the decoded frames in the order of the body. Take a
  non-empty semantic tag \<open>t\<close> and its occurrences \<open>occ\<close>, the decoded frames that carry
  it, in that order. When the identifiers of all of them are of class \<^verbatim>\<open>'array'\<close> and
  the tag object did not hold \<open>t\<close> before, the tag ends as the array of the values of
  every occurrence, in encounter order. When none of them is of class \<^verbatim>\<open>'array'\<close>, the
  tag ends as the value of the last occurrence.
\<close>

theorem store_frames_multi_valued:
  assumes "store_frames D tags0 fs = Inr tags'" and "t \<noteq> []"
    and "filter (\<lambda>f. frame_tag f = Some t) fs = occ" and "occ \<noteq> []"
  shows "parseV2Frames D bytes vminor tags0 =
           store_frames D tags0 (decoded_frames D vminor bytes 0) \<and>
         ((\<forall>f\<in>set occ. FrameTypeValueMap D (frame_id f) = Some (js ''array'')) \<and>
          tags0 t = None \<longrightarrow>
            tags' t = Some (Arr (map frame_value occ))) \<and>
         ((\<forall>f\<in>set occ. FrameTypeValueMap D (frame_id f) \<noteq> Some (js ''array'')) \<longrightarrow>
            tags' t = Some (frame_value (last occ)))"
proof (intro conjI impI)
  show "parseV2Frames D bytes vminor tags0 =
           store_frames D tags0 (decoded_frames D vminor bytes 0)"
    by (simp add: parseV2Frames_def loop_as_fold)
next
  assume a: "(\<forall>f\<in>set occ. FrameTypeValueMap D (frame_id f) = Some (js ''array'')) \<and>
          tags0 t = None"
  with assms(3) have "\<forall>f\<in>set fs. frame_tag f = Some t \<longrightarrow>
           FrameTypeValueMap D (frame_id f) = Some (js ''array'')" by auto
  from store_frames_array_first [OF assms(1,2) this] a assms(3,4)
  show "tags' t = Some (Arr (map frame_value occ))" by simp
next
  assume "\<forall>f\<in>set occ. FrameTypeValueMap D (frame_id f) \<noteq> Some (js ''array'')"
  with assms(3) have "\<forall>f\<in>set fs. frame_tag f = Some t \<longrightarrow>
           FrameTypeValueMap D (frame_id f) \<noteq> Some (js ''array'')" by auto
  from store_frames_single [OF assms(1,2) this] assms(3,4)
  show "tags' t = Some (frame_value (last occ))" by simp
qed

theorem store_frames_multi_valued_witness:
  "parseV2Frames spec_deps (comment_eng @ comment_deu) 3 Map.empty =
     Inr [js ''comments'' \<mapsto> Arr [comment_eng_value, comment_deu_value]] \<and>
   map frame_value (decoded_frames spec_deps 3 (comment_eng @ comment_deu) 0) =
     [comment_eng_value, comment_deu_value] \<and>
   [js ''comments'' \<mapsto> Arr [comment_eng_value, comment_deu_value]] (js ''comments'') =
     Some (Arr [comment_eng_value, comment_deu_value]) \<and>
   parseV2Frames spec_deps (title_hi @ title_yo) 3 Map.empty =
     Inr [js ''title'' \<mapsto> Str (js ''Yo'')] \<and>
   map frame_value (decoded_frames spec_deps 3 (title_hi @ title_yo) 0) =
     [Str (js ''Hi''), Str (js ''Yo'')] \<and>
   [js ''title'' \<mapsto> Str (js ''Yo'')] (js ''title'') = Some (Str (js ''Yo''))"
proof -
  let ?cs = "decoded_frames spec_deps 3 (comment_eng @ comment_deu) 0"
  let ?ts = "decoded_frames spec_deps 3 (title_hi @ title_yo) 0"
  have c1: "store_frames spec_deps Map.empty ?cs =
      Inr [js ''comments'' \<mapsto> Arr [comment_eng_value, comment_deu_value]]"
    using comments_stored by (simp add: parseV2Frames_def loop_as_fold)
  have c3: "filter (\<lambda>f. frame_tag f = Some (js ''comments'')) ?cs = ?cs"
    by (simp add: comments_decoded)
  have c4: "?cs \<noteq> []" by (simp add: comments_decoded)
  have c5: "\<forall>f\<in>set ?cs. FrameTypeValueMap spec_deps (frame_id f) = Some (js ''array'')"
    by (simp add: comments_decoded comments_class)
  have t1: "store_frames spec_deps Map.empty ?ts = Inr [js ''title'' \<mapsto> Str (js ''Yo'')]"
    using titles_stored by (simp add: parseV2Frames_def loop_as_fold)
  have t3: "filter (\<lambda>f. frame_tag f = Some (js ''title'')) ?ts = ?ts"
    by (simp add: titles_decoded)
  have t4: "?ts \<noteq> []" by (simp add: titles_decoded)
  have t5: "\<forall>f\<in>set ?ts. FrameTypeValueMap spec_deps (frame_id f) \<noteq> Some (js ''array'')"
    by (simp add: titles_decoded title_class)
  from store_frames_multi_valued [OF c1 comments_tag_nonempty c3 c4] c5
  have a: "[js ''comments'' \<mapsto> Arr [comment_eng_value, comment_deu_value]] (js ''comments'') =
      Some (Arr (map frame_value ?cs))"
    by simp
  from store_frames_multi_valued [OF t1 title_tag_nonempty t3 t4] t5
  have b: "[js ''title'' \<mapsto> Str (js ''Yo'')] (js ''title'') = Some (frame_value (last ?ts))"
    by blast
  from a b show ?thesis
    by (simp add: comments_stored titles_stored comments_decoded titles_decoded)
qed

subsection \<open>No \<^verbatim>\<open>push\<close> on a value that is not an array\<close>

lemma parseFrame_tag:
  "frame_tag (parseFrame D bs v n) = Some t \<Longrightarrow>
   frameTypes D (frame_id (parseFrame D bs v n)) = Some t"
  by (auto simp: parseFrame_def Let_def split: if_splits option.splits)

lemma store_frame_ok:
  assumes cons: "tables_consistent D" and inv: "array_slots_ok D tags"
    and tab: "\<And>t. frame_tag f = Some t \<Longrightarrow> frameTypes D (frame_id f) = Some t"
  shows "\<exists>tags1. store_frame D tags f = Inr tags1 \<and> array_slots_ok D tags1"
proof (cases "frame_tag f")
  case None
  with inv show ?thesis by (simp add: store_frame_def)
next
  case (Some t)
  note ft = tab [OF Some]
  show ?thesis
  proof (cases "t = []")
    case True
    with Some inv show ?thesis by (simp add: store_frame_def)
  next
    case False
    show ?thesis
    proof (cases "FrameTypeValueMap D (frame_id f) = Some (js ''array'')")
      case True
      have keep: "array_slots_ok D (tags(t \<mapsto> Arr xs))" for xs
        using inv unfolding array_slots_ok_def by auto
      show ?thesis
      proof (cases "tags t")
        case None
        with Some False True keep show ?thesis by (simp add: store_frame_def)
      next
        case (Some v)
        show ?thesis
        proof (cases "truthy v")
          case t: True
          with inv ft True Some obtain xs where "v = Arr xs"
            unfolding array_slots_ok_def by blast
          with \<open>frame_tag f = Some t\<close> False True Some keep show ?thesis
            by (simp add: store_frame_def)
        next
          case f: False
          with \<open>frame_tag f = Some t\<close> False True Some keep show ?thesis
            by (cases v) (simp_all add: store_frame_def)
        qed
      qed
    next
      case na: False
      have "array_slots_ok D (tags(t \<mapsto> frame_value f))"
        unfolding array_slots_ok_def
      proof (intro allI impI)
        fix i t' v
        assume a: "frameTypes D i = Some t' \<and> FrameTypeValueMap D i = Some (js ''array'') \<and>
          (tags(t \<mapsto> frame_value f)) t' = Some v \<and> truthy v"
        show "\<exists>xs. v = Arr xs"
        proof (cases "t' = t")
          case True
          with a ft cons have "FrameTypeValueMap D (frame_id f) = Some (js ''array'')"
            unfolding tables_consistent_def by blast
          with na show ?thesis by simp
        next
          case False
          with a inv show ?thesis unfolding array_slots_ok_def by auto
        qed
      qed
      with Some False na show ?thesis by (simp add: store_frame_def)
    qed
  qed
qed

lemma store_frames_ok:
  assumes "tables_consistent D" and "array_slots_ok D tags"
    and "\<forall>f\<in>set fs. \<forall>t. frame_tag f = Some t \<longrightarrow> frameTypes D (frame_id f) = Some t"
  shows "\<exists>tags'. store_frames D tags fs = Inr tags'"
  using assms
proof (induction fs arbitrary: tags)
  case Nil
  then show ?case by simp
next
  case (Cons f fs)
  from Cons.prems have "\<And>t. frame_tag f = Some t \<Longrightarrow> frameTypes D (frame_id f) = Some t"
    by simp
  from store_frame_ok [OF Cons.prems(1,2) this] obtain tags1
    where s: "store_frame D tags f = Inr tags1" and ok: "array_slots_ok D tags1"
    by blast
  from Cons.prems(3) have "\<forall>f\<in>set fs. \<forall>t. frame_tag f = Some t \<longrightarrow>
      frameTypes D (frame_id f) = Some t" by simp
  from Cons.IH [OF Cons.prems(1) ok this] s show ?case by simp
qed

lemma parseV2Frames_ok:
  assumes "tables_consistent D" and "array_slots_ok D tags"
  shows "\<exists>tags'. parseV2Frames D bytes v tags = Inr tags'"
proof -
  have "\<forall>f\<in>set (decoded_frames D v bytes 0). \<forall>t. frame_tag f = Some t \<longrightarrow>
      frameTypes D (frame_id f) = Some t"
    by (auto simp: decoded_frames_def parseFrame_tag)
  from store_frames_ok [OF assms this] show ?thesis
    by (simp add: parseV2Frames_def loop_as_fold)
qed

lemma version_slot_ok:
  assumes "tables_consistent D"
  shows "array_slots_ok D [js ''version'' \<mapsto> x]"
  using assms unfolding tables_consistent_def array_slots_ok_def
  by (auto split: if_splits)

lemma map_of_inj:
  "distinct (map snd xs) \<Longrightarrow> map_of xs i = Some t \<Longrightarrow> map_of xs j = Some t \<Longrightarrow> i = j"
proof (induction xs)
  case Nil
  then show ?case by simp
next
  case (Cons x xs)
  obtain k u where x: "x = (k, u)" by (cases x)
  have notin: "map_of xs y = Some u \<Longrightarrow> False" for y
    using Cons.prems(1) x map_of_SomeD [of xs y u] by (force simp: image_iff)
  from Cons x notin show ?case
    by (auto split: if_splits)
qed

lemma spec_tables_consistent: "tables_consistent spec_deps"
proof -
  let ?xs = "[(js ''TIT2'', js ''title''), (js ''TPE1'', js ''artist''),
             (js ''TALB'', js ''album''), (js ''TCON'', js ''genre''),
             (js ''COMM'', js ''comments''), (js ''WOAR'', js ''artist-url''),
             (js ''WXXX'', js ''user-url''), (js ''APIC'', js ''image''),
             (js ''OWNE'', js ''ownership'')]"
  have d: "distinct (map snd ?xs)" by (simp add: js_def)
  have inj: "frameTypes spec_deps i = Some t \<Longrightarrow> frameTypes spec_deps j = Some t \<Longrightarrow> i = j"
    for i j t
    using map_of_inj [OF d, of i t j] by (simp add: spec_deps_def spec_frameTypes_def)
  have nov: "frameTypes spec_deps i \<noteq> Some (js ''version'')" for i
  proof
    assume "frameTypes spec_deps i = Some (js ''version'')"
    then have "map_of ?xs i = Some (js ''version'')"
      by (simp add: spec_deps_def spec_frameTypes_def)
    then have "(i, js ''version'') \<in> set ?xs" by (rule map_of_SomeD)
    then show False by (simp add: js_def)
  qed
  show ?thesis unfolding tables_consistent_def using inj nov by blast
qed

text \<open>
  C7. \<^verbatim>\<open>parseV2Data\<close> returns \<^verbatim>\<open>false\<close> exactly when the buffer is missing, shorter
  than 20 bytes, or does not start with the three bytes \<^verbatim>\<open>ID3\<close>; in every other case it
  throws its unsupported-feature error or returns a tag object. The identifier reader is
  assumed to agree with the byte comparison on the buffer's header, and the two static
  tables to fit together.
\<close>

theorem parseV2Data_absent_iff:
  assumes "tables_consistent D"
    and "case b of None \<Rightarrow> True | Some bytes \<Rightarrow> reads_magic D bytes"
  shows "(parseV2Data D b = Inr None) =
           (case b of
              None \<Rightarrow> True
            | Some bytes \<Rightarrow> length bytes < 20 \<or> take 3 bytes \<noteq> ascii ''ID3'') \<and>
         (parseV2Data D b = Inr None \<or> parseV2Data D b = Inl NoUnsyncSupport \<or>
          (\<exists>tags. parseV2Data D b = Inr (Some tags)))"
proof (cases b)
  case None
  then show ?thesis by (simp add: parseV2Data_def)
next
  case (Some bytes)
  with assms(2) have magic: "reads_magic D bytes" by simp
  show ?thesis
  proof (cases "length bytes < 20")
    case True
    with Some show ?thesis by (simp add: parseV2Data_def V2_MIN_LENGTH_def)
  next
    case long: False
    then have ten: "10 \<le> length bytes" by simp
    show ?thesis
    proof (cases "take 3 bytes = ascii ''ID3''")
      case False
      from parseV2Header_None [OF ten magic False] Some long False show ?thesis
        by (simp add: parseV2Data_def V2_MIN_LENGTH_def)
    next
      case True
      from parseV2Header_Some [OF ten magic True] obtain v
        where hdr: "parseV2Header D (Some (take 10 bytes)) = Some v" by blast
      show ?thesis
      proof (cases "flag_unsync (version_flags v)")
        case u: True
        with Some long True hdr show ?thesis
          by (simp add: parseV2Data_def V2_MIN_LENGTH_def)
      next
        case u: False
        define body where "body = slice bytes
          (int (if flag_xheader (version_flags v) then 10 + calcTagSize (slice bytes 10 14) else 10))
          (int (calcTagSize (slice bytes 6 10) +
             (if flag_xheader (version_flags v) then 10 + calcTagSize (slice bytes 10 14) else 10)))"
        from parseV2Frames_ok [OF assms(1) version_slot_ok [OF assms(1)]]
        obtain tags' where "parseV2Frames D body (version_minor v)
            [js ''version'' \<mapsto> version_obj v] = Inr tags'"
          by blast
        with Some long True hdr u show ?thesis
          by (simp add: parseV2Data_def V2_MIN_LENGTH_def Let_def body_def)
      qed
    qed
  qed
qed

theorem parseV2Data_absent_iff_witness:
  "tables_consistent spec_deps \<and> reads_magic spec_deps no_tag \<and>
   reads_magic spec_deps truncated_tag \<and>
   take 3 no_tag \<noteq> ascii ''ID3'' \<and> parseV2Data spec_deps (Some no_tag) = Inr None \<and>
   \<not> length truncated_tag < 20 \<and> take 3 truncated_tag = ascii ''ID3'' \<and>
   parseV2Data spec_deps (Some truncated_tag) \<noteq> Inr None \<and>
   parseV2Data spec_deps None = Inr None"
proof -
  have m1: "reads_magic spec_deps no_tag"
    by (simp add: reads_magic_def no_tag_def ascii_def js_def spec_eval)
  have m2: "reads_magic spec_deps truncated_tag"
    by (simp add: reads_magic_def truncated_tag_def tag_header_def ascii_def js_def spec_eval)
  have n: "take 3 no_tag \<noteq> ascii ''ID3''" by (simp add: no_tag_def ascii_def)
  have l: "\<not> length truncated_tag < 20"
    by (simp add: truncated_tag_def tag_header_def truncated_body_def frame_def ascii_def)
  have t: "take 3 truncated_tag = ascii ''ID3''"
    by (simp add: truncated_tag_def tag_header_def ascii_def)
  from parseV2Data_absent_iff [OF spec_tables_consistent, of "Some no_tag"] m1 n
  have r1: "parseV2Data spec_deps (Some no_tag) = Inr None" by simp
  from parseV2Data_absent_iff [OF spec_tables_consistent, of "Some truncated_tag"] m2 l t
  have r2: "parseV2Data spec_deps (Some truncated_tag) \<noteq> Inr None" by simp
  from parseV2Data_absent_iff [OF spec_tables_consistent, of None]
  have r3: "parseV2Data spec_deps None = Inr None" by simp
  from spec_tables_consistent m1 m2 n l t r1 r2 r3 show ?thesis by blast
qed

subsection \<open>URL frames\<close>

lemma js_WXXX: "js ''WXXX'' \<noteq> [] \<and> hd (js ''WXXX'') = 0x57 \<and> hd (js ''WXXX'') \<noteq> 0x54"
  by (simp add: js_def)

lemma spec_decodes_latin1: "decodes_latin1 spec_deps"
  by (simp add: decodes_latin1_def spec_deps_def spec_readBytesToISO8859_def limit_bytes_def)

text \<open>
  C10, as the code has it. Take a \<^verbatim>\<open>WXXX\<close> frame with first payload byte \<open>e\<close> (byte 10
  of the frame). When its second flag byte is 0 and \<^verbatim>\<open>WXXX\<close> is a key of the frame-type
  table, the value is the ISO-8859-1 reading of the frame from byte 11 when \<open>e\<close> is 0
  and from byte 10 otherwise, which is what every other identifier that starts with
  \<^verbatim>\<open>W\<close> gets; with a reader that turns each byte into the character of its code, a
  nonzero \<open>e\<close> is then the first character of the returned string. When the second flag
  byte is not 0 or \<^verbatim>\<open>WXXX\<close> is no key of the table, the frame has no tag and its value
  is \<^verbatim>\<open>null\<close>.
\<close>

theorem WXXX_encoding_byte:
  assumes "readBytesToUTF8 D bytes (Some 4) = js ''WXXX''"
    and "byte_at bytes 10 = Some e"
  shows "(byte_at bytes 9 = Some 0 \<and> frameTypes D (js ''WXXX'') = Some tag \<longrightarrow>
            frame_tag (parseFrame D bytes vminor fsize) = Some tag \<and>
            frame_value (parseFrame D bytes vminor fsize) =
              Str (readBytesToISO8859 D (slice_from bytes (if e = 0 then 11 else 10)) None) \<and>
            (decodes_latin1 D \<and> e \<noteq> 0 \<longrightarrow>
               frame_value (parseFrame D bytes vminor fsize) =
                 Str (ucast e # map ucast (drop 11 bytes)))) \<and>
         (hid \<noteq> [] \<and> hd hid = 0x57 \<and> hid \<noteq> js ''WXXX'' \<longrightarrow>
            frame_content D hid bytes = Str (readBytesToISO8859 D (slice_from bytes 10) None)) \<and>
         (byte_at bytes 9 \<noteq> Some 0 \<or> frameTypes D (js ''WXXX'') = None \<longrightarrow>
            frame_tag (parseFrame D bytes vminor fsize) = None \<and>
            frame_value (parseFrame D bytes vminor fsize) = Null)"
proof -
  have v: "frame_content D (js ''WXXX'') bytes =
      Str (readBytesToISO8859 D (slice_from bytes (if e = 0 then 11 else 10)) None)"
    using assms(2) js_WXXX by (simp add: frame_content_def)
  from assms(2) have "10 < length bytes" and "bytes ! 10 = e"
    by (auto simp: byte_at_def split: if_splits)
  then have d: "drop 10 bytes = e # drop 11 bytes"
    using Cons_nth_drop_Suc [of 10 bytes] by simp
  have pos: "byte_at bytes 9 = Some 0 \<and> frameTypes D (js ''WXXX'') = Some tag \<longrightarrow>
            frame_tag (parseFrame D bytes vminor fsize) = Some tag \<and>
            frame_value (parseFrame D bytes vminor fsize) =
              Str (readBytesToISO8859 D (slice_from bytes (if e = 0 then 11 else 10)) None) \<and>
            (decodes_latin1 D \<and> e \<noteq> 0 \<longrightarrow>
               frame_value (parseFrame D bytes vminor fsize) =
                 Str (ucast e # map ucast (drop 11 bytes)))"
  proof
    assume a: "byte_at bytes 9 = Some 0 \<and> frameTypes D (js ''WXXX'') = Some tag"
    have p: "parseFrame D bytes vminor fsize =
        \<lparr>frame_id = js ''WXXX'', frame_tag = Some tag,
         frame_value = frame_content D (js ''WXXX'') bytes\<rparr>"
      using assms(1) a by (simp add: parseFrame_def Let_def)
    have l: "decodes_latin1 D \<and> e \<noteq> 0 \<longrightarrow>
        frame_value (parseFrame D bytes vminor fsize) = Str (ucast e # map ucast (drop 11 bytes))"
      using p v d by (simp add: decodes_latin1_def)
    from p v l show "frame_tag (parseFrame D bytes vminor fsize) = Some tag \<and>
            frame_value (parseFrame D bytes vminor fsize) =
              Str (readBytesToISO8859 D (slice_from bytes (if e = 0 then 11 else 10)) None) \<and>
            (decodes_latin1 D \<and> e \<noteq> 0 \<longrightarrow>
               frame_value (parseFrame D bytes vminor fsize) =
                 Str (ucast e # map ucast (drop 11 bytes)))"
      by simp
  qed
  have g: "hid \<noteq> [] \<and> hd hid = 0x57 \<and> hid \<noteq> js ''WXXX'' \<longrightarrow>
            frame_content D hid bytes = Str (readBytesToISO8859 D (slice_from bytes 10) None)"
    by (simp add: frame_content_def)
  have neg: "byte_at bytes 9 \<noteq> Some 0 \<or> frameTypes D (js ''WXXX'') = None \<longrightarrow>
            frame_tag (parseFrame D bytes vminor fsize) = None \<and>
            frame_value (parseFrame D bytes vminor fsize) = Null"
    using assms(1) by (auto simp: parseFrame_def Let_def)
  from pos g neg show ?thesis by blast
qed

theorem WXXX_encoding_byte_witness:
  "readBytesToUTF8 spec_deps url_frame (Some 4) = js ''WXXX'' \<and>
   byte_at url_frame 10 = Some 1 \<and>
   byte_at url_frame 9 = Some 0 \<and>
   frameTypes spec_deps (js ''WXXX'') = Some (js ''user-url'') \<and>
   js ''WOAR'' \<noteq> [] \<and> hd (js ''WOAR'') = 0x57 \<and> js ''WOAR'' \<noteq> js ''WXXX'' \<and>
   decodes_latin1 spec_deps \<and>
   frame_content spec_deps (js ''WOAR'') url_frame = Str (1 # js ''http'') \<and>
   frame_value (parseFrame spec_deps url_frame 3 5) = Str (1 # js ''http'') \<and>
   readBytesToUTF8 spec_deps flagged_url_frame (Some 4) = js ''WXXX'' \<and>
   byte_at flagged_url_frame 10 = Some 1 \<and>
   byte_at flagged_url_frame 9 \<noteq> Some 0 \<and>
   frame_value (parseFrame spec_deps flagged_url_frame 3 5) = Null \<and>
   readBytesToUTF8 spec_deps_no_WXXX url_frame (Some 4) = js ''WXXX'' \<and>
   frameTypes spec_deps_no_WXXX (js ''WXXX'') = None \<and>
   frame_value (parseFrame spec_deps_no_WXXX url_frame 3 5) = Null"
proof -
  have a: "readBytesToUTF8 spec_deps url_frame (Some 4) = js ''WXXX''"
    by (simp add: url_frame_def frame_def ascii_def js_def spec_eval)
  have b: "byte_at url_frame 9 = Some 0"
    by (simp add: url_frame_def frame_def ascii_def byte_at_def)
  have c: "frameTypes spec_deps (js ''WXXX'') = Some (js ''user-url'')"
    by (simp add: js_def spec_eval)
  have d: "byte_at url_frame 10 = Some 1"
    by (simp add: url_frame_def frame_def ascii_def byte_at_def)
  have w: "js ''WOAR'' \<noteq> [] \<and> hd (js ''WOAR'') = 0x57 \<and> js ''WOAR'' \<noteq> js ''WXXX''"
    by (simp add: js_def)
  have r: "Str (ucast (1 :: byte) # map ucast (drop 11 url_frame)) = Str (1 # js ''http'')"
    by (simp add: url_frame_def frame_def ascii_def js_def)
  have i: "readBytesToISO8859 spec_deps (drop 10 url_frame) None = 1 # js ''http''"
    by (simp add: url_frame_def frame_def ascii_def js_def spec_eval)
  note t = WXXX_encoding_byte [OF a d, of "js ''user-url''" 3 5 "js ''WOAR''"]
  from t w i have g: "frame_content spec_deps (js ''WOAR'') url_frame = Str (1 # js ''http'')"
    by simp
  from t b c spec_decodes_latin1 r i
  have v: "frame_value (parseFrame spec_deps url_frame 3 5) = Str (1 # js ''http'')"
    by simp
  have fa: "readBytesToUTF8 spec_deps flagged_url_frame (Some 4) = js ''WXXX''"
    by (simp add: flagged_url_frame_def ascii_def js_def spec_eval)
  have fd: "byte_at flagged_url_frame 10 = Some 1"
    by (simp add: flagged_url_frame_def ascii_def byte_at_def)
  have fb: "byte_at flagged_url_frame 9 \<noteq> Some 0"
    by (simp add: flagged_url_frame_def ascii_def byte_at_def)
  from WXXX_encoding_byte [OF fa fd, of "js ''user-url''" 3 5 "[]"] fb
  have fv: "frame_value (parseFrame spec_deps flagged_url_frame 3 5) = Null"
    by blast
  have na: "readBytesToUTF8 spec_deps_no_WXXX url_frame (Some 4) = js ''WXXX''"
    using a by (simp add: spec_deps_no_WXXX_def spec_deps_def)
  have nc: "frameTypes spec_deps_no_WXXX (js ''WXXX'') = None"
    by (simp add: spec_deps_no_WXXX_def)
  from WXXX_encoding_byte [OF na d, of "js ''user-url''" 3 5 "[]"] nc
  have nv: "frame_value (parseFrame spec_deps_no_WXXX url_frame 3 5) = Null"
    by blast
  from a b c d w spec_decodes_latin1 g v fa fd fb fv na nc nv show ?thesis by blast
qed

text \<open>
  The claim as stated fails on a \<^verbatim>\<open>WXXX\<close> frame with first payload byte 1 whose second
  flag byte is 1, and on the same frame with flag bytes 0 when the frame-type table has
  no key \<^verbatim>\<open>WXXX\<close>: the value is \<^verbatim>\<open>null\<close>, not a string that starts with the encoding
  byte.
\<close>

theorem WXXX_without_value:
  "readBytesToUTF8 spec_deps flagged_url_frame (Some 4) = js ''WXXX'' \<and>
   byte_at flagged_url_frame 10 = Some 1 \<and>
   parseFrame spec_deps flagged_url_frame 3 5 =
     \<lparr>frame_id = js ''WXXX'', frame_tag = None, frame_value = Null\<rparr> \<and>
   readBytesToUTF8 spec_deps_no_WXXX url_frame (Some 4) = js ''WXXX'' \<and>
   byte_at url_frame 10 = Some 1 \<and>
   parseFrame spec_deps_no_WXXX url_frame 3 5 =
     \<lparr>frame_id = js ''WXXX'', frame_tag = None, frame_value = Null\<rparr>"
proof -
  have fa: "readBytesToUTF8 spec_deps flagged_url_frame (Some 4) = js ''WXXX''"
    by (simp add: flagged_url_frame_def ascii_def js_def spec_eval)
  have fd: "byte_at flagged_url_frame 10 = Some 1"
    by (simp add: flagged_url_frame_def ascii_def byte_at_def)
  have fb: "byte_at flagged_url_frame 9 \<noteq> Some 0"
    by (simp add: flagged_url_frame_def ascii_def byte_at_def)
  have fp: "parseFrame spec_deps flagged_url_frame 3 5 =
     \<lparr>frame_id = js ''WXXX'', frame_tag = None, frame_value = Null\<rparr>"
    using parseFrame_flagged [OF fb, of spec_deps 3 5] fa by simp
  have a: "readBytesToUTF8 spec_deps url_frame (Some 4) = js ''WXXX''"
    by (simp add: url_frame_def frame_def ascii_def js_def spec_eval)
  then have na: "readBytesToUTF8 spec_deps_no_WXXX url_frame (Some 4) = js ''WXXX''"
    by (simp add: spec_deps_no_WXXX_def spec_deps_def)
  have d: "byte_at url_frame 10 = Some 1"
    by (simp add: url_frame_def frame_def ascii_def byte_at_def)
  have nc: "frameTypes spec_deps_no_WXXX (js ''WXXX'') = None"
    by (simp add: spec_deps_no_WXXX_def)
  have np: "parseFrame spec_deps_no_WXXX url_frame 3 5 =
     \<lparr>frame_id = js ''WXXX'', frame_tag = None, frame_value = Null\<rparr>"
    using na nc by (simp add: parseFrame_def Let_def)
  from fa fd fp na d np show ?thesis by blast
qed

subsection \<open>The ownership frame\<close>

lemma parseFrame_OWNE_offsets:
  assumes "readBytesToUTF8 D bytes (Some 4) = js ''OWNE''"
    and "byte_at bytes 9 = Some 0"
    and "frameTypes D (js ''OWNE'') = Some tag"
  shows "frame_value (parseFrame D bytes vminor fsize) =
     Obj [(''pricePayed'',
             Str (readBytesToISO8859 D (slice_from bytes 11)
                    (Some (getEndpointOfBytes D bytes (byte_at bytes 10) 11)))),
          (''dateOfPurch'',
             Str (readBytesToISO8859 D
                    (slice_from bytes (12 + getEndpointOfBytes D bytes (byte_at bytes 10) 11))
                    (Some 8))),
          (''seller'',
             str_or_null (readBytesToString D
                    (slice_from bytes (20 + getEndpointOfBytes D bytes (byte_at bytes 10) 11))
                    (byte_at bytes 10) None))]"
proof -
  have "js ''OWNE'' \<noteq> [] \<and> hd (js ''OWNE'') \<noteq> 0x54 \<and> hd (js ''OWNE'') \<noteq> 0x57 \<and>
        js ''OWNE'' \<noteq> js ''COMM'' \<and> js ''OWNE'' \<noteq> js ''USLT'' \<and>
        js ''OWNE'' \<noteq> js ''APIC'' \<and> js ''OWNE'' \<noteq> js ''IPLS''"
    by (simp add: js_def)
  then have "frame_content D (js ''OWNE'') bytes = parseFrame_OWNE D bytes"
    by (simp add: frame_content_def)
  with assms show ?thesis
    by (simp add: parseFrame_def parseFrame_OWNE_def Let_def add.commute add.left_commute)
qed

text \<open>
  C3 on the code. On an ownership frame with price \<^verbatim>\<open>1\<close>, date \<^verbatim>\<open>20200101\<close> and
  seller \<^verbatim>\<open>S\<close> the terminator of the price is found at offset 12 of the frame. The
  branch passes that offset on as the length of the price and adds it to the start
  offset 11: the price read is the rest of the frame, and the date and the seller, read
  from offsets 24 and 32, are empty.
\<close>

theorem OWNE_endpoint_as_length:
  "getEndpointOfBytes spec_deps owne_frame (byte_at owne_frame 10) 11 = 12 \<and>
   parseFrame spec_deps owne_frame 3 12 =
     \<lparr>frame_id = js ''OWNE'', frame_tag = Some (js ''ownership''),
      frame_value =
        Obj [(''pricePayed'', Str (js ''1'' @ 0 # js ''20200101S'')),
             (''dateOfPurch'', Str []),
             (''seller'', Str [])]\<rparr>"
  by (simp add: owne_frame_def parseFrame_OWNE_def str_or_null_def frame_eval spec_eval)

subsection \<open>The scan of the picture description\<close>

lemma description_scan_by_reads:
  "description_scan bytes s i =
     (if description_scan_reads bytes i \<noteq> [] \<and>
         byte_at bytes (last (description_scan_reads bytes i)) = Some 0
      then last (description_scan_reads bytes i) - s else 0)"
proof (induction bytes i rule: description_scan_reads.induct)
  case (1 bytes i)
  show ?case
  proof (cases "i < 36700160")
    case False
    then show ?thesis
      by (simp add: description_scan.simps [of bytes s i]
          description_scan_reads.simps [of bytes i])
  next
    case True
    show ?thesis
    proof (cases "byte_at bytes i = Some 0")
      case z: True
      with True show ?thesis
        by (simp add: description_scan.simps [of bytes s i]
            description_scan_reads.simps [of bytes i])
    next
      case z: False
      with True "1.IH" show ?thesis
        by (simp add: description_scan.simps [of bytes s i]
            description_scan_reads.simps [of bytes i])
    qed
  qed
qed

lemma description_scan_reads_mem:
  "i \<le> j \<Longrightarrow> j < 36700160 \<Longrightarrow> (\<forall>k. i \<le> k \<and> k < j \<longrightarrow> byte_at bytes k \<noteq> Some 0) \<Longrightarrow>
   j \<in> set (description_scan_reads bytes i)"
proof (induction bytes i rule: description_scan_reads.induct)
  case (1 bytes i)
  show ?case
  proof (cases "i = j")
    case True
    with "1.prems" show ?thesis by (simp add: description_scan_reads.simps [of bytes j])
  next
    case False
    with "1.prems" have lt: "i < j" by simp
    with "1.prems" have nz: "byte_at bytes i \<noteq> Some 0" by simp
    from lt "1.prems" have "j \<in> set (description_scan_reads bytes (i + 1))"
      using "1.IH" nz by simp
    with lt "1.prems" nz show ?thesis by (simp add: description_scan_reads.simps [of bytes i])
  qed
qed

lemma description_scan_reads_bound:
  "k \<in> set (description_scan_reads bytes i) \<Longrightarrow> i \<le> k \<and> k < 36700160"
proof (induction bytes i rule: description_scan_reads.induct)
  case (1 bytes i)
  then show ?case
    by (subst (asm) (2) description_scan_reads.simps) (force split: if_splits)
qed

lemma picture_no_null_bytes: "14 \<le> k \<Longrightarrow> byte_at picture_no_null k \<noteq> Some 0"
proof -
  assume k: "14 \<le> k"
  have len: "length picture_no_null = 16"
    by (simp add: picture_no_null_def frame_def ascii_def)
  show ?thesis
  proof (cases "k < 16")
    case True
    with k have "k = 14 \<or> k = 15" by arith
    then show ?thesis
      by (auto simp: byte_at_def picture_no_null_def frame_def ascii_def)
  next
    case False
    with len show ?thesis by (simp add: byte_at_def)
  qed
qed

text \<open>
  C2 on the code. On a picture frame with no null byte after the picture type the scan
  starts at offset 14 and reads \<^verbatim>\<open>bytes[i]\<close> at index \<open>30 * 1024 * 1024\<close> and at
  every index up to 36700159: the bound of the loop is 36700160, not the
  \<open>30 * 1024 * 1024\<close> of its comment.
\<close>

theorem description_scan_past_30MiB:
  "11 + (getEndpointOfBytes spec_deps picture_no_null (Some 0) 11 - 11 + 2) = 14 \<and>
   30 * 1024 * 1024 \<in> set (description_scan_reads picture_no_null 14) \<and>
   36700159 \<in> set (description_scan_reads picture_no_null 14)"
proof -
  have "11 + (getEndpointOfBytes spec_deps picture_no_null (Some 0) 11 - 11 + 2) = 14"
    by (simp add: picture_no_null_def frame_def ascii_def spec_eval)
  moreover have "30 * 1024 * 1024 \<in> set (description_scan_reads picture_no_null 14)"
    by (rule description_scan_reads_mem) (simp_all add: picture_no_null_bytes)
  moreover have "36700159 \<in> set (description_scan_reads picture_no_null 14)"
    by (rule description_scan_reads_mem) (simp_all add: picture_no_null_bytes)
  ultimately show ?thesis by blast
qed

subsection \<open>The genre frame\<close>

lemma digit_not_space:
  assumes "is_digit c"
  shows "\<not> StrWhiteSpaceChar c"
proof -
  have "\<not> (0x2000 \<le> c \<and> c \<le> 0x39)"
  proof
    assume "0x2000 \<le> c \<and> c \<le> 0x39"
    then have "(0x2000 :: 16 word) \<le> 0x39" by (meson order_trans)
    then show False by simp
  qed
  with assms show ?thesis
    by (auto simp: is_digit_def StrWhiteSpaceChar_def)
qed

lemma digit_not_paren: "\<not> is_digit 0x28" "\<not> is_digit 0x29" "\<not> is_digit 0x2B"
  "\<not> is_digit 0x2D"
  by (simp_all add: is_digit_def)

lemma match_groups_group:
  assumes "digits ds"
  shows "match_groups (group ds @ rest) = group ds # match_groups rest"
proof -
  from assms have all: "\<forall>x\<in>set ds. is_digit x" and ne: "ds \<noteq> []"
    by (simp_all add: digits_def list_all_iff)
  have tw: "takeWhile is_digit (ds @ 0x29 # rest) = ds"
    using all by (simp add: takeWhile_append2 digit_not_paren)
  have dw: "dropWhile is_digit (ds @ 0x29 # rest) = 0x29 # rest"
    using all by (simp add: dropWhile_append2 digit_not_paren)
  show ?thesis
    using ne by (simp add: group_def tw dw)
qed

lemma match_groups_concat:
  "\<forall>ds\<in>set dss. digits ds \<Longrightarrow> match_groups (concat (map group dss)) = map group dss"
  by (induction dss) (simp_all add: match_groups_group)

lemma group_inner: "butlast (tl (group ds)) = ds"
  by (simp add: group_def)

lemma parseInt10_digits:
  assumes "digits s"
  shows "parseInt10 s = Some (int (digits_value s))"
proof -
  from assms obtain c cs where s: "s = c # cs" and c: "is_digit c"
    and all: "\<forall>x\<in>set s. is_digit x"
    by (cases s) (auto simp: digits_def list_all_iff)
  from c have "\<not> StrWhiteSpaceChar c" by (rule digit_not_space)
  with s have dw: "dropWhile StrWhiteSpaceChar s = s" by simp
  from c have sign: "c \<noteq> 0x2B" "c \<noteq> 0x2D" using digit_not_paren by auto
  from all have tw: "takeWhile is_digit s = s" by (simp add: takeWhile_eq_all_conv)
  from s sign tw show ?thesis
    unfolding parseInt10_def dw by (simp add: Let_def)
qed

lemma content_type_groups:
  assumes "dss \<noteq> []" and "\<forall>ds\<in>set dss. digits ds"
  shows "content_type D (concat (map group dss)) =
           Str (join_comma (map (\<lambda>ds. genre_at D (int (digits_value ds))) dss))"
proof -
  from assms(1) obtain d ds where dss: "dss = d # ds" by (cases dss) auto
  then have start: "concat (map group dss) \<noteq> [] \<and> hd (concat (map group dss)) = 0x28"
    by (simp add: group_def)
  have m: "match_groups (concat (map group dss)) = map group dss"
    using assms(2) by (rule match_groups_concat)
  from assms(1) start show ?thesis
    by (simp add: content_type_def m Let_def comp_def group_inner)
qed

lemma content_type_digits:
  assumes "digits s"
  shows "content_type D s = genre_at D (int (digits_value s))"
proof -
  from assms have "hd s \<noteq> 0x28"
    using digit_not_paren(1) by (cases s) (auto simp: digits_def)
  then show ?thesis
    by (simp add: content_type_def parseInt10_digits [OF assms])
qed

lemma parseFrame_TCON:
  assumes "readBytesToUTF8 D bytes (Some 4) = js ''TCON''"
    and "byte_at bytes 9 = Some 0"
    and "frameTypes D (js ''TCON'') = Some tag"
    and "readBytesToString D (slice_from bytes 11) (byte_at bytes 10) None = Some s"
  shows "parseFrame D bytes vminor fsize =
           \<lparr>frame_id = js ''TCON'', frame_tag = Some tag, frame_value = content_type D s\<rparr>"
proof -
  have "js ''TCON'' \<noteq> [] \<and> hd (js ''TCON'') = 0x54 \<and> js ''TCON'' \<noteq> js ''TXXX''"
    by (simp add: js_def)
  with assms(4) have "frame_content D (js ''TCON'') bytes = content_type D s"
    using slice_from_numeral [of bytes "num.Bit1 (num.Bit1 (num.Bit0 num.One))"]
    by (simp add: frame_content_def)
  with assms(1,2,3) show ?thesis by (simp add: parseFrame_def Let_def)
qed

lemmas genre_eval =
  genre_frame_def parseFrame_def frame_content_def frame_def ascii_def js_def byte_at_def Let_def

lemma genre_frame_id:
  "readBytesToUTF8 spec_deps (genre_frame (c # s)) (Some 4) = js ''TCON''"
  "byte_at (genre_frame s) 9 = Some 0"
  "frameTypes spec_deps (js ''TCON'') = Some (js ''genre'')"
  by (simp_all add: genre_eval spec_eval)

lemma genre_frame_string:
  "readBytesToString spec_deps (slice_from (genre_frame ''(17)'') 11)
     (byte_at (genre_frame ''(17)'') 10) None = Some (js ''(17)'')"
  "readBytesToString spec_deps (slice_from (genre_frame ''17'') 11)
     (byte_at (genre_frame ''17'') 10) None = Some (js ''17'')"
  "readBytesToString spec_deps (slice_from (genre_frame ''Rock'') 11)
     (byte_at (genre_frame ''Rock'') 10) None = Some (js ''Rock'')"
  "readBytesToString spec_deps (slice_from (genre_frame ''2Pac'') 11)
     (byte_at (genre_frame ''2Pac'') 10) None = Some (js ''2Pac'')"
  by (simp_all add: genre_eval spec_eval)

lemma genre_strings:
  "js ''(17)'' = concat (map group [js ''17''])"
  "digits (js ''17'')"
  "parseInt10 (js ''Rock'') = None"
  "parseInt10 (js ''2Pac'') = Some 2"
  "\<not> digits (js ''2Pac'')"
  "hd (js ''2Pac'') \<noteq> 0x28" "hd (js ''Rock'') \<noteq> 0x28"
  by (simp_all add: js_def group_def digits_def is_digit_def parseInt10_def
      StrWhiteSpaceChar_def digits_value_def Let_def)

lemma genre_entries:
  "genre_at spec_deps 17 = Str (js ''Rock'')"
  "genre_at spec_deps 2 = Str (js ''Country'')"
  "digits_value (js ''17'') = 17"
  by (simp_all add: genre_at_def spec_deps_def spec_genres_def digits_value_def js_def)

text \<open>
  C4, as the code has it. On a genre frame that is decoded, with decoded string \<open>s\<close>:
  a string made of one or more groups \<^verbatim>\<open>(digits)\<close> becomes the comma-joined genre-table
  entries of the groups' numbers, and a string of decimal digits becomes the entry of its
  number. More generally, a string that starts with \<^verbatim>\<open>(\<close> and holds a group anywhere
  becomes the joined entries of the groups found, from left to right, and a string that
  does not start with \<^verbatim>\<open>(\<close> and from which \<^verbatim>\<open>parseInt\<close> reads a number (white space, a
  sign, leading digits, whatever follows them) becomes the entry of that number. The
  literal string is kept in the remaining cases: it starts with \<^verbatim>\<open>(\<close> and holds no
  group, or \<^verbatim>\<open>parseInt\<close> reads no number from it.
\<close>

theorem TCON_genre_rewrite:
  assumes "readBytesToUTF8 D bytes (Some 4) = js ''TCON''"
    and "byte_at bytes 9 = Some 0"
    and "frameTypes D (js ''TCON'') = Some tag"
    and "readBytesToString D (slice_from bytes 11) (byte_at bytes 10) None = Some s"
  shows "(dss \<noteq> [] \<and> list_all digits dss \<and> s = concat (map group dss) \<longrightarrow>
            frame_value (parseFrame D bytes vminor fsize) =
              Str (join_comma (map (\<lambda>ds. genre_at D (int (digits_value ds))) dss))) \<and>
         (digits s \<longrightarrow>
            frame_value (parseFrame D bytes vminor fsize) = genre_at D (int (digits_value s))) \<and>
         (s \<noteq> [] \<and> hd s = 0x28 \<and> match_groups s \<noteq> [] \<longrightarrow>
            frame_value (parseFrame D bytes vminor fsize) =
              Str (join_comma
                (map (\<lambda>v. genre_at D (int (digits_value (butlast (tl v))))) (match_groups s)))) \<and>
         (\<not> (s \<noteq> [] \<and> hd s = 0x28) \<and> parseInt10 s = Some n \<longrightarrow>
            frame_value (parseFrame D bytes vminor fsize) = genre_at D n) \<and>
         ((s \<noteq> [] \<and> hd s = 0x28 \<and> match_groups s = []) \<or>
          (\<not> (s \<noteq> [] \<and> hd s = 0x28) \<and> parseInt10 s = None) \<longrightarrow>
            frame_value (parseFrame D bytes vminor fsize) = Str s)"
proof -
  have v: "frame_value (parseFrame D bytes vminor fsize) = content_type D s"
    using parseFrame_TCON [OF assms] by simp
  have a: "dss \<noteq> [] \<and> list_all digits dss \<and> s = concat (map group dss) \<longrightarrow>
      content_type D s = Str (join_comma (map (\<lambda>ds. genre_at D (int (digits_value ds))) dss))"
    using content_type_groups [of dss D] by (auto simp: list_all_iff)
  have b: "digits s \<longrightarrow> content_type D s = genre_at D (int (digits_value s))"
    using content_type_digits by blast
  have c: "s \<noteq> [] \<and> hd s = 0x28 \<and> match_groups s \<noteq> [] \<longrightarrow>
      content_type D s = Str (join_comma
                (map (\<lambda>v. genre_at D (int (digits_value (butlast (tl v))))) (match_groups s)))"
    by (simp add: content_type_def Let_def)
  have d: "\<not> (s \<noteq> [] \<and> hd s = 0x28) \<and> parseInt10 s = Some n \<longrightarrow>
      content_type D s = genre_at D n"
    by (auto simp: content_type_def)
  have e: "(s \<noteq> [] \<and> hd s = 0x28 \<and> match_groups s = []) \<or>
          (\<not> (s \<noteq> [] \<and> hd s = 0x28) \<and> parseInt10 s = None) \<longrightarrow> content_type D s = Str s"
    by (auto simp: content_type_def)
  from a b c d e show ?thesis unfolding v by blast
qed

theorem TCON_genre_rewrite_witness:
  "readBytesToUTF8 spec_deps (genre_frame ''(17)'') (Some 4) = js ''TCON'' \<and>
   byte_at (genre_frame ''(17)'') 9 = Some 0 \<and>
   frameTypes spec_deps (js ''TCON'') = Some (js ''genre'') \<and>
   readBytesToString spec_deps (slice_from (genre_frame ''(17)'') 11)
     (byte_at (genre_frame ''(17)'') 10) None = Some (js ''(17)'') \<and>
   [js ''17''] \<noteq> [] \<and> list_all digits [js ''17''] \<and>
   js ''(17)'' = concat (map group [js ''17'']) \<and>
   frame_value (parseFrame spec_deps (genre_frame ''(17)'') 3 5) = Str (js ''Rock'') \<and>
   digits (js ''17'') \<and>
   frame_value (parseFrame spec_deps (genre_frame ''17'') 3 3) = Str (js ''Rock'') \<and>
   hd (js ''Rock'') \<noteq> 0x28 \<and> parseInt10 (js ''Rock'') = None \<and>
   frame_value (parseFrame spec_deps (genre_frame ''Rock'') 3 5) = Str (js ''Rock'') \<and>
   hd (js ''2Pac'') \<noteq> 0x28 \<and> parseInt10 (js ''2Pac'') = Some 2 \<and>
   frame_value (parseFrame spec_deps (genre_frame ''2Pac'') 3 5) = Str (js ''Country'')"
proof -
  note t1 = TCON_genre_rewrite [OF genre_frame_id genre_frame_string(1),
      of "[js ''17'']" 3 5 0]
  note t2 = TCON_genre_rewrite [OF genre_frame_id genre_frame_string(2), of "[]" 3 3 0]
  note t3 = TCON_genre_rewrite [OF genre_frame_id genre_frame_string(3), of "[]" 3 5 0]
  note t4 = TCON_genre_rewrite [OF genre_frame_id genre_frame_string(4), of "[]" 3 5 2]
  have l: "list_all digits [js ''17'']" using genre_strings(2) by simp
  from t1 l genre_strings(1)
  have r1: "frame_value (parseFrame spec_deps (genre_frame ''(17)'') 3 5) = Str (js ''Rock'')"
    by (simp add: genre_entries)
  from t2 genre_strings(2)
  have r2: "frame_value (parseFrame spec_deps (genre_frame ''17'') 3 3) = Str (js ''Rock'')"
    by (simp add: genre_entries)
  from t3 genre_strings(3,7)
  have r3: "frame_value (parseFrame spec_deps (genre_frame ''Rock'') 3 5) = Str (js ''Rock'')"
    by simp
  from t4 genre_strings(4,6)
  have r4: "frame_value (parseFrame spec_deps (genre_frame ''2Pac'') 3 5) = Str (js ''Country'')"
    by (simp add: genre_entries)
  from genre_frame_id(1) [of "CHR ''(''" "''17)''"] genre_frame_id(2) [of "''(17)''"]
    genre_frame_id(3) genre_frame_string(1) genre_strings l r1 r2 r3 r4
  show ?thesis by simp
qed

text \<open>
  The claim as stated fails on the string \<^verbatim>\<open>2Pac\<close>: it is not made of groups and it is
  not a bare integer as a whole, yet it is not kept: \<^verbatim>\<open>parseInt\<close> reads 2 from it and the
  value becomes entry 2 of the genre table.
\<close>

theorem TCON_integer_prefix:
  "readBytesToString spec_deps (slice_from (genre_frame ''2Pac'') 11)
     (byte_at (genre_frame ''2Pac'') 10) None = Some (js ''2Pac'') \<and>
   hd (js ''2Pac'') \<noteq> 0x28 \<and> \<not> digits (js ''2Pac'') \<and>
   parseFrame spec_deps (genre_frame ''2Pac'') 3 5 =
     \<lparr>frame_id = js ''TCON'', frame_tag = Some (js ''genre''),
      frame_value = Str (js ''Country'')\<rparr> \<and>
   js ''Country'' \<noteq> js ''2Pac''"
proof -
  have "parseFrame spec_deps (genre_frame ''2Pac'') 3 5 =
     \<lparr>frame_id = js ''TCON'', frame_tag = Some (js ''genre''),
      frame_value = content_type spec_deps (js ''2Pac'')\<rparr>"
    by (rule parseFrame_TCON) (rule genre_frame_id genre_frame_string)+
  moreover have "content_type spec_deps (js ''2Pac'') = Str (js ''Country'')"
    using genre_strings(6) by (simp add: content_type_def genre_strings(4) genre_entries)
  moreover have "js ''Country'' \<noteq> js ''2Pac''" by (simp add: js_def)
  ultimately show ?thesis
    using genre_frame_string(4) genre_strings(5,6) by simp
qed

end
